theory Spec2Isabelle
  imports Complex_Main "HOL-Library.Sublist"
begin

section \<open>The batch extraction loop of \<open>iden_challenge_final_script.py\<close>\<close>

text \<open>
  The script drives a browser page. Everything the page answers is an input of the
  model: one \<open>poll\<close> per iteration of the \<open>while True\<close> loop holds what the
  locator count returned, what \<open>page.evaluate\<close> of the extraction script returns
  during that iteration, and whether a file opened for writing during that iteration
  can be written. An iteration that extracts twice (a flush at the threshold, then the
  forced flush at the ceiling) gets the answer of its poll both times. Logging, the fixed
  800 ms wait and the time stamps of the written files are left out; every other
  assignment of the source is in the model.
\<close>

subsection \<open>Constants\<close>

definition MAX_EXPECTED_PRODUCTS :: nat where
  "MAX_EXPECTED_PRODUCTS = 50000"

definition max_consecutive_same :: nat where
  "max_consecutive_same = 3"

subsection \<open>What the page answers\<close>

datatype 'r evaluate_result =
    Products "'r list"      \<comment> \<open>the script returned the array of product objects\<close>
  | ErrorMarker string      \<comment> \<open>the script's \<open>catch\<close> returned \<open>{ __error: String(err) }\<close>\<close>
  | EvaluateRaises          \<comment> \<open>\<open>page.evaluate\<close> itself raised in Python\<close>

record 'r poll =
  current_count :: nat
  page_result :: "'r evaluate_result"
  disk_ok :: bool

datatype 'r tick =
    PollRaises              \<comment> \<open>the scroll or the locator count raised\<close>
  | Poll "'r poll"

datatype py_error = PlaywrightError | TypeError

datatype 'r py_value = PyList "'r list" | PyDict string

subsection \<open>The object's attributes and the files it writes\<close>

record 'r batch_file =
  file_batch_number :: int
  products_in_batch :: nat
  total_products_so_far :: nat
  file_base_url :: string
  products :: "'r list"

record 'r automation =
  base_url :: string
  batch_size :: int
  all_products :: "'r list"
  batch_number :: int
  written_batches :: "'r batch_file list"

record 'r final_output =
  total_products :: nat
  total_batches :: int
  out_batch_size :: int
  out_base_url :: string
  out_products :: "'r list"

text \<open>
  \<open>__init__\<close>: the URL without its trailing slashes, an empty collection, batch number
  1, nothing written yet. (The names of the batch folder and of the final file, the
  session file and the credentials play no part in the extraction.)
\<close>

definition rstrip_slash :: "string \<Rightarrow> string" where
  "rstrip_slash url = rev (dropWhile (\<lambda>c. c = CHR ''/'') (rev url))"

definition init :: "string \<Rightarrow> int \<Rightarrow> 'r automation" where
  "init url bsize =
     \<lparr>base_url = rstrip_slash url, batch_size = bsize, all_products = [], batch_number = 1,
      written_batches = []\<rparr>"

subsection \<open>\<open>extract_all_products\<close>, Python side\<close>

text \<open>
  A dict whose \<open>__error\<close> entry is truthy gives the empty list; any other result is
  handed back as it is, so a marker with an empty text comes back as the dict.
\<close>

fun extract_all_products :: "'r evaluate_result \<Rightarrow> py_error + 'r py_value" where
  "extract_all_products (Products ps) = Inr (PyList ps)"
| "extract_all_products (ErrorMarker msg) =
     (if msg \<noteq> [] then Inr (PyList []) else Inr (PyDict msg))"
| "extract_all_products EvaluateRaises = Inl PlaywrightError"

text \<open>\<open>current_products[n:]\<close>: a list is sliced, a dict raises.\<close>

fun slice_from :: "'r py_value \<Rightarrow> nat \<Rightarrow> py_error + 'r list" where
  "slice_from (PyList xs) n = Inr (drop n xs)"
| "slice_from (PyDict _) n = Inl TypeError"

subsection \<open>\<open>save_batch_to_file\<close>\<close>

text \<open>
  The file name is built from the batch number, which grows after every call, so the
  files written in one run are listed in the order of their writing. A write that fails
  is caught and logged by the source and leaves no file.
\<close>

definition save_batch_to_file :: "'r automation \<Rightarrow> bool \<Rightarrow> 'r list \<Rightarrow> 'r automation" where
  "save_batch_to_file self ok batch_products =
     (if ok then
        self\<lparr>written_batches := written_batches self @
          [\<lparr>file_batch_number = batch_number self,
            products_in_batch = length batch_products,
            total_products_so_far = length (all_products self),
            file_base_url = base_url self,
            products = batch_products\<rparr>]\<rparr>
      else self)"

subsection \<open>\<open>extract_and_save_current_batch\<close>\<close>

definition extract_and_save_current_batch ::
    "'r automation \<Rightarrow> 'r poll \<Rightarrow> bool \<Rightarrow> 'r automation" where
  "extract_and_save_current_batch self p force_save =
     (case extract_all_products (page_result p) of
        Inl e \<Rightarrow> self
      | Inr current_products \<Rightarrow>
          (case slice_from current_products (length (all_products self)) of
             Inl e \<Rightarrow> self
           | Inr new_products \<Rightarrow>
               if new_products = [] \<and> \<not> force_save then self
               else
                 let self1 = self\<lparr>all_products := all_products self @ new_products\<rparr>
                 in if batch_size self1 \<le> int (length new_products) \<or> force_save
                    then (save_batch_to_file self1 (disk_ok p) new_products)
                           \<lparr>batch_number := batch_number self1 + 1\<rparr>
                    else self1))"

subsection \<open>The \<open>while True\<close> loop of \<open>extract_product_data_in_batches\<close>\<close>

datatype exit_reason = Stalled | LimitExceeded | Raised

text \<open>The object together with the two local variables of the loop.\<close>

record 'r loop_state =
  this :: "'r automation"
  last_product_count :: nat
  consecutive_same_count :: nat

definition start :: "'r automation \<Rightarrow> 'r loop_state" where
  "start self = \<lparr>this = self, last_product_count = 0, consecutive_same_count = 0\<rparr>"

datatype 'r step = Continue "'r loop_state" | Break exit_reason "'r automation"

text \<open>
  One iteration. An exception of the scroll or of the count leaves the loop through the
  outer \<open>except\<close>; \<open>extract_and_save_current_batch\<close> catches its own.
\<close>

definition loop_body :: "'r loop_state \<Rightarrow> 'r tick \<Rightarrow> 'r step" where
  "loop_body st t =
     (case t of
        PollRaises \<Rightarrow> Break Raised (this st)
      | Poll p \<Rightarrow>
          let same = (current_count p = last_product_count st);
              consecutive1 = (if same then consecutive_same_count st + 1 else 0)
          in if same \<and> max_consecutive_same \<le> consecutive1
             then Break Stalled (extract_and_save_current_batch (this st) p True)
             else
               let self1 =
                     (if batch_size (this st)
                           \<le> int (current_count p) - int (length (all_products (this st)))
                      then extract_and_save_current_batch (this st) p False
                      else this st)
               in if MAX_EXPECTED_PRODUCTS < current_count p
                  then Break LimitExceeded (extract_and_save_current_batch self1 p True)
                  else Continue \<lparr>this = self1, last_product_count = current_count p,
                                 consecutive_same_count = consecutive1\<rparr>)"

text \<open>
  The loop reads one tick per iteration. With no tick left it is still polling, in the
  state given; otherwise it has left with a reason, the object as it is then, and the
  ticks it never read.
\<close>

datatype 'r outcome =
    Polling "'r loop_state"
  | Done exit_reason "'r automation" "'r tick list"

fun polling_loop :: "'r loop_state \<Rightarrow> 'r tick list \<Rightarrow> 'r outcome" where
  "polling_loop st [] = Polling st"
| "polling_loop st (t # rest) =
     (case loop_body st t of
        Break why self1 \<Rightarrow> Done why self1 rest
      | Continue st1 \<Rightarrow> polling_loop st1 rest)"

subsection \<open>\<open>create_final_output\<close> and the whole of \<open>extract_product_data_in_batches\<close>\<close>

definition create_final_output :: "'r automation \<Rightarrow> bool \<Rightarrow> 'r final_output option" where
  "create_final_output self ok =
     (if ok then
        Some \<lparr>total_products = length (all_products self),
              total_batches = batch_number self - 1,
              out_batch_size = batch_size self,
              out_base_url = base_url self,
              out_products = all_products self\<rparr>
      else None)"

record 'r run_result =
  returned :: bool
  exit_by :: exit_reason
  final_self :: "'r automation"
  final_file :: "'r final_output option"
  unread :: "'r tick list"

text \<open>
  \<open>None\<close>: the loop has not left within the ticks given. After \<open>Raised\<close> the function
  returns \<open>False\<close> and writes no final file; after the two other exits it writes the
  final file (when the disk lets it) and returns \<open>True\<close>.
\<close>

definition extract_product_data_in_batches ::
    "'r automation \<Rightarrow> 'r tick list \<Rightarrow> bool \<Rightarrow> 'r run_result option" where
  "extract_product_data_in_batches self ticks final_ok =
     (case polling_loop (start self) ticks of
        Polling st \<Rightarrow> None
      | Done why self1 rest \<Rightarrow>
          (if why = Raised
           then Some \<lparr>returned = False, exit_by = why, final_self = self1,
                      final_file = None, unread = rest\<rparr>
           else Some \<lparr>returned = True, exit_by = why, final_self = self1,
                      final_file = create_final_output self1 final_ok, unread = rest\<rparr>))"

subsection \<open>Snapshots that only grow\<close>

text \<open>The record list a tick shows, when the extraction script returned one.\<close>

fun snapshot_of :: "'r tick \<Rightarrow> 'r list option" where
  "snapshot_of PollRaises = None"
| "snapshot_of (Poll p) = (case page_result p of Products s \<Rightarrow> Some s | _ \<Rightarrow> None)"

text \<open>
  Positional stability: every tick shows a snapshot, and each snapshot is the one before
  it (\<open>prev\<close> for the first) with records appended at the end.
\<close>

fun append_only :: "'r list \<Rightarrow> 'r tick list \<Rightarrow> bool" where
  "append_only prev [] = True"
| "append_only prev (t # ts) =
     (case snapshot_of t of
        None \<Rightarrow> False
      | Some s \<Rightarrow> prefix prev s \<and> append_only s ts)"

text \<open>A page that shows the records \<open>0, \<dots>, n - 1\<close>, counts \<open>n\<close> of them and whose
  disk can be written.\<close>

definition counting :: "nat \<Rightarrow> nat poll" where
  "counting n = \<lparr>current_count = n, page_result = Products [0..<n], disk_ok = True\<rparr>"

definition showing :: "nat \<Rightarrow> nat tick" where
  "showing n = Poll (counting n)"

subsection \<open>Scenario inputs\<close>

text \<open>Scenario A of the specification: six polls showing 0, 100, 250, 250, 250 and 250
  records.\<close>

definition scenario_A :: "nat tick list" where
  "scenario_A = map showing [0, 100, 250, 250, 250, 250]"

text \<open>The record lists of the batch files a run wrote, in the order of their writing.\<close>

definition written_products :: "'r run_result \<Rightarrow> 'r list list" where
  "written_products r = map products (written_batches (final_self r))"

text \<open>A page that shows no product at all.\<close>

definition empty_page :: "'r tick" where
  "empty_page = Poll \<lparr>current_count = 0, page_result = Products [], disk_ok = True\<rparr>"

subsection \<open>The stall rule in the words of the specification\<close>

text \<open>
  Over the list of the counts observed so far: the observation before poll \<open>k\<close> (before
  the first poll it is the initial \<open>last_product_count = 0\<close>), whether poll \<open>k\<close>
  observes the same count as the observation before it, and whether the three polls
  ending with poll \<open>k\<close> all do.
\<close>

definition previous_count :: "nat list \<Rightarrow> nat \<Rightarrow> nat" where
  "previous_count cs k = (if k = 0 then 0 else cs ! (k - 1))"

definition unchanged :: "nat list \<Rightarrow> nat \<Rightarrow> bool" where
  "unchanged cs k = (k < length cs \<and> cs ! k = previous_count cs k)"

definition three_unchanged :: "nat list \<Rightarrow> nat \<Rightarrow> bool" where
  "three_unchanged cs k =
     (2 \<le> k \<and> unchanged cs k \<and> unchanged cs (k - 1) \<and> unchanged cs (k - 2))"

text \<open>A page whose count never falls and stops growing at four records, and a page
  that shows one record more than the ceiling.\<close>

definition growing_page :: "nat \<Rightarrow> nat poll" where
  "growing_page i = counting (min i 4)"

definition crowded_page :: "unit poll" where
  "crowded_page =
     \<lparr>current_count = 50001, page_result = Products (replicate 50001 ()), disk_ok = True\<rparr>"

text \<open>A tick whose extraction, when it returns a record list, returns as many records
  as the locator counted.\<close>

definition shows_what_it_counts :: "'r tick \<Rightarrow> bool" where
  "shows_what_it_counts t =
     (case t of
        PollRaises \<Rightarrow> True
      | Poll q \<Rightarrow>
          (case page_result q of
             Products s \<Rightarrow> length s = current_count q
           | _ \<Rightarrow> True))"

text \<open>The run over a fresh object with batch size 250 that meets the crowded page at its
  first poll, with one more poll of that page waiting.\<close>

definition crowded_run :: "unit run_result" where
  "crowded_run =
     \<lparr>returned = True, exit_by = LimitExceeded,
      final_self =
        \<lparr>base_url = ''u'', batch_size = 250, all_products = replicate 50001 (),
         batch_number = 3,
         written_batches =
           [\<lparr>file_batch_number = 1, products_in_batch = 50001, total_products_so_far = 50001,
             file_base_url = ''u'', products = replicate 50001 ()\<rparr>,
            \<lparr>file_batch_number = 2, products_in_batch = 0, total_products_so_far = 50001,
             file_base_url = ''u'', products = []\<rparr>]\<rparr>,
      final_file =
        Some \<lparr>total_products = 50001, total_batches = 2, out_batch_size = 250,
               out_base_url = ''u'', out_products = replicate 50001 ()\<rparr>,
      unread = [Poll crowded_page]\<rparr>"

section \<open>The extraction script that runs in the page\<close>

text \<open>
  The JavaScript handed to \<open>page.evaluate\<close> by \<open>extract_all_products\<close>. A string is
  the list of the bytes of its UTF-8 form. Searching, splitting and replacing by bytes
  agree with JavaScript's work on code units, since no UTF-8 form of a character begins
  inside the form of another. Numbers are doubles: \<open>parseInt\<close> and \<open>parseFloat\<close> give
  the double nearest to what the digits denote, an infinity beyond the range of doubles,
  and minus zero. The lower-casing of text that is not all ASCII needs the tables of the
  Unicode standard, which are no part of the source: it is the parameter
  \<open>unicode_lower\<close> of every function that lower-cases.
\<close>

subsection \<open>String methods\<close>

definition is_ascii :: "char \<Rightarrow> bool" where
  "is_ascii c = (\<not> digit7 c)"

definition is_digit :: "char \<Rightarrow> bool" where
  "is_digit c = (c \<in> set ''0123456789'')"

text \<open>
  The white space of ECMAScript (WhiteSpace and LineTerminator), which \<open>trim\<close>,
  \<open>parseInt\<close> and \<open>parseFloat\<close> pass over and \<open>\s\<close> matches: U+0009 to U+000D,
  U+0020, U+00A0, U+1680, U+2000 to U+200A, U+2028, U+2029, U+202F, U+205F, U+3000 and
  U+FEFF, each as its UTF-8 bytes.
\<close>

definition white_space :: "string list" where
  "white_space =
     [[CHR 0x09], [CHR 0x0A], [CHR 0x0B], [CHR 0x0C], [CHR 0x0D], [CHR 0x20],
      [CHR 0xC2, CHR 0xA0],
      [CHR 0xE1, CHR 0x9A, CHR 0x80],
      [CHR 0xE2, CHR 0x80, CHR 0x80], [CHR 0xE2, CHR 0x80, CHR 0x81],
      [CHR 0xE2, CHR 0x80, CHR 0x82], [CHR 0xE2, CHR 0x80, CHR 0x83],
      [CHR 0xE2, CHR 0x80, CHR 0x84], [CHR 0xE2, CHR 0x80, CHR 0x85],
      [CHR 0xE2, CHR 0x80, CHR 0x86], [CHR 0xE2, CHR 0x80, CHR 0x87],
      [CHR 0xE2, CHR 0x80, CHR 0x88], [CHR 0xE2, CHR 0x80, CHR 0x89],
      [CHR 0xE2, CHR 0x80, CHR 0x8A],
      [CHR 0xE2, CHR 0x80, CHR 0xA8], [CHR 0xE2, CHR 0x80, CHR 0xA9],
      [CHR 0xE2, CHR 0x80, CHR 0xAF],
      [CHR 0xE2, CHR 0x81, CHR 0x9F],
      [CHR 0xE3, CHR 0x80, CHR 0x80],
      [CHR 0xEF, CHR 0xBB, CHR 0xBF]]"

text \<open>
  Passing over the sequences of \<open>ws\<close> at the front of a string; \<open>skip\<close> counts the
  bytes of a sequence just found that are still to be passed over.
\<close>

fun strip_go :: "string list \<Rightarrow> nat \<Rightarrow> string \<Rightarrow> string" where
  "strip_go ws skip [] = []"
| "strip_go ws (Suc k) (c # cs) = strip_go ws k cs"
| "strip_go ws 0 (c # cs) =
     (case find (\<lambda>w. w \<noteq> [] \<and> prefix w (c # cs)) ws of
        None \<Rightarrow> c # cs
      | Some w \<Rightarrow> strip_go ws (length w - 1) cs)"

definition trim_start :: "string \<Rightarrow> string" where
  "trim_start s = strip_go white_space 0 s"

definition trim_end :: "string \<Rightarrow> string" where
  "trim_end s = rev (strip_go (map rev white_space) 0 (rev s))"

definition trim :: "string \<Rightarrow> string" where
  "trim s = trim_end (trim_start s)"

definition to_lower_char :: "char \<Rightarrow> char" where
  "to_lower_char c =
     (case map_of (zip ''ABCDEFGHIJKLMNOPQRSTUVWXYZ'' ''abcdefghijklmnopqrstuvwxyz'') c of
        None \<Rightarrow> c
      | Some d \<Rightarrow> d)"

text \<open>\<open>s.toLowerCase()\<close>: in ASCII text the capital letters are lowered; any other text
  is lowered by the Unicode tables.\<close>

definition toLowerCase :: "(string \<Rightarrow> string) \<Rightarrow> string \<Rightarrow> string" where
  "toLowerCase unicode_lower s =
     (if list_all is_ascii s then map to_lower_char s else unicode_lower s)"

definition includes_str :: "string \<Rightarrow> string \<Rightarrow> bool" where
  "includes_str s pat = sublist pat s"

text \<open>
  \<open>s.split(sep)\<close> for a separator that is not empty, as the one of the script is:
  \<open>acc\<close> is the piece being read, last character first, and \<open>skip\<close> counts the
  characters of a separator just found that are still to be passed over.
\<close>

fun split_go :: "string \<Rightarrow> nat \<Rightarrow> string \<Rightarrow> string \<Rightarrow> string list" where
  "split_go sep skip acc [] = [rev acc]"
| "split_go sep (Suc k) acc (c # cs) = split_go sep k acc cs"
| "split_go sep 0 acc (c # cs) =
     (if sep \<noteq> [] \<and> prefix sep (c # cs)
      then rev acc # split_go sep (length sep - 1) [] cs
      else split_go sep 0 (c # acc) cs)"

definition split_str :: "string \<Rightarrow> string \<Rightarrow> string list" where
  "split_str s sep = split_go sep 0 [] s"

text \<open>
  \<open>s.replace(/id:/i, '')\<close>: the first \<open>id:\<close>, in either case, is taken out. Without
  the \<open>u\<close> flag no character outside ASCII matches an ASCII letter of the pattern.
\<close>

fun replace_first_id :: "string \<Rightarrow> string" where
  "replace_first_id [] = []"
| "replace_first_id (c # cs) =
     (if map to_lower_char (take 3 (c # cs)) = ''id:'' then drop 3 (c # cs)
      else c # replace_first_id cs)"

text \<open>
  \<open>s.replace(/s+/g, '_')\<close>, the pattern as the source has it: every run of the letter
  \<open>s\<close> becomes one underscore. \<open>in_run\<close> says that the character before was an \<open>s\<close>.
\<close>

fun replace_s_runs_go :: "bool \<Rightarrow> string \<Rightarrow> string" where
  "replace_s_runs_go in_run [] = []"
| "replace_s_runs_go in_run (c # cs) =
     (if c = CHR ''s''
      then (if in_run then replace_s_runs_go True cs
            else CHR ''_'' # replace_s_runs_go True cs)
      else c # replace_s_runs_go False cs)"

definition replace_s_runs :: "string \<Rightarrow> string" where
  "replace_s_runs s = replace_s_runs_go False s"

text \<open>\<open>s.replace(/[^0-9.-]+/g, '')\<close>: only digits, dots and minus signs stay.\<close>

definition keep_numeric :: "string \<Rightarrow> string" where
  "keep_numeric s = filter (\<lambda>c. is_digit c \<or> c = CHR ''.'' \<or> c = CHR ''-'') s"

subsection \<open>Numbers\<close>

text \<open>The values of a JavaScript number other than \<open>NaN\<close>; a finite one is the rational
  that the double is.\<close>

datatype js_number = Finite rat | PosInfinity | NegInfinity | NegZero

text \<open>The number of binary digits of a natural number.\<close>

fun bits :: "nat \<Rightarrow> nat" where
  "bits n = (if n = 0 then 0 else Suc (bits (n div 2)))"

declare bits.simps [simp del]

definition pow2 :: "int \<Rightarrow> rat" where
  "pow2 e = (if 0 \<le> e then 2 ^ nat e else 1 / 2 ^ nat (- e))"

text \<open>For \<open>p > 0\<close> and \<open>q > 0\<close>, the \<open>e\<close> with \<open>2 ^ e \<le> p / q < 2 ^ (e + 1)\<close>.\<close>

definition floor_log2 :: "nat \<Rightarrow> nat \<Rightarrow> int" where
  "floor_log2 p q =
     (if q \<le> p then int (bits (p div q)) - 1
      else - int (bits ((q + p - 1) div p - 1)))"

text \<open>\<open>a / b\<close> rounded to the nearest integer, a tie to the even one.\<close>

definition round_half_even :: "nat \<Rightarrow> nat \<Rightarrow> nat" where
  "round_half_even a b =
     (let f = a div b; r = a mod b
      in if 2 * r < b then f
         else if b < 2 * r then f + 1
         else if even f then f else f + 1)"

text \<open>
  For \<open>p > 0\<close> and \<open>q > 0\<close>, the double nearest to \<open>p / q\<close> as a rational: 53 binary
  digits, the exponent no smaller than that of the subnormal doubles; \<open>2 ^ 1024\<close> stands
  for overflow.
\<close>

definition nearest_double :: "nat \<Rightarrow> nat \<Rightarrow> rat" where
  "nearest_double p q =
     (let e = max (floor_log2 p q - 52) (- 1074);
          m = (if 0 \<le> e then round_half_even p (q * 2 ^ nat e)
               else round_half_even (p * 2 ^ nat (- e)) q)
      in of_nat m * pow2 e)"

text \<open>The number with the given sign and the magnitude \<open>p / q\<close> (\<open>q > 0\<close>), as a double.\<close>

definition to_double :: "bool \<Rightarrow> nat \<Rightarrow> nat \<Rightarrow> js_number" where
  "to_double negative p q =
     (let v = (if p = 0 then 0 else nearest_double p q)
      in if 2 ^ 1024 \<le> v then (if negative then NegInfinity else PosInfinity)
         else if v = 0 then (if negative then NegZero else Finite 0)
         else Finite (if negative then - v else v))"

subsection \<open>\<open>parseInt\<close> and \<open>parseFloat\<close>\<close>

definition digit_value :: "char \<Rightarrow> nat" where
  "digit_value c =
     (case map_of (zip ''0123456789'' [0, 1, 2, 3, 4, 5, 6, 7, 8, 9]) c of
        None \<Rightarrow> 0
      | Some d \<Rightarrow> d)"

definition digits_value :: "string \<Rightarrow> nat" where
  "digits_value ds = foldl (\<lambda>n c. 10 * n + digit_value c) 0 ds"

text \<open>The sign in front of a number, and what follows it.\<close>

fun take_sign :: "string \<Rightarrow> bool \<times> string" where
  "take_sign [] = (False, [])"
| "take_sign (c # cs) =
     (if c = CHR ''-'' then (True, cs)
      else if c = CHR ''+'' then (False, cs)
      else (False, c # cs))"

text \<open>The digits that \<open>parseInt(s, 10)\<close> reads, and whether a minus sign is before them.\<close>

definition int_digits :: "string \<Rightarrow> string" where
  "int_digits s = takeWhile is_digit (snd (take_sign (trim_start s)))"

definition int_negative :: "string \<Rightarrow> bool" where
  "int_negative s = fst (take_sign (trim_start s))"

text \<open>The integer that these digits and this sign denote.\<close>

definition int_read :: "string \<Rightarrow> int" where
  "int_read s =
     (if int_negative s then - int (digits_value (int_digits s))
      else int (digits_value (int_digits s)))"

text \<open>\<open>parseInt(s, 10)\<close>; \<open>None\<close> is \<open>NaN\<close>.\<close>

definition parseInt :: "string \<Rightarrow> js_number option" where
  "parseInt s =
     (if int_digits s = [] then None
      else Some (to_double (int_negative s) (digits_value (int_digits s)) 1))"

text \<open>
  \<open>parseFloat(s)\<close>; \<open>None\<close> is \<open>NaN\<close>. After white space and a sign it reads
  \<open>Infinity\<close>, or digits, a dot and digits (at least one digit in all) and then, when
  digits follow it, an exponent; the value is the digits, without the dot, times the
  power of ten that the exponent and the place of the dot give.
\<close>

definition parseFloat :: "string \<Rightarrow> js_number option" where
  "parseFloat s =
     (let (negative, rest) = take_sign (trim_start s)
      in if prefix ''Infinity'' rest then Some (if negative then NegInfinity else PosInfinity)
         else
           let whole = takeWhile is_digit rest;
               after = dropWhile is_digit rest;
               dotted = (case after of [] \<Rightarrow> False | c # cs \<Rightarrow> c = CHR ''.'');
               frac = (if dotted then takeWhile is_digit (tl after) else []);
               tail = (if dotted then dropWhile is_digit (tl after) else after);
               (exp_negative, exp_rest) =
                 (case tail of
                    [] \<Rightarrow> (False, [])
                  | c # cs \<Rightarrow>
                      if c = CHR ''e'' \<or> c = CHR ''E'' then take_sign cs else (False, []));
               exp_digits = takeWhile is_digit exp_rest;
               exponent = (if exp_negative then - int (digits_value exp_digits)
                           else int (digits_value exp_digits));
               mantissa = digits_value (whole @ frac);
               shift = exponent - int (length frac)
           in if whole = [] \<and> frac = [] then None
              else if 0 \<le> shift then Some (to_double negative (mantissa * 10 ^ nat shift) 1)
              else Some (to_double negative mantissa (10 ^ nat (- shift))))"

subsection \<open>The page and the product objects\<close>

datatype js_value = JString string | JNumber js_number | JNull

type_synonym product = "string \<rightharpoonup> js_value"

text \<open>
  What the selectors find in one product container: the text of the name heading and of
  the info line when they exist, the detail blocks with the text of their label and value
  spans when those exist, and the time the script reads for \<open>extracted_at\<close>.
\<close>

record detail_section =
  label_span :: "string option"
  value_span :: "string option"

record container =
  name_el :: "string option"
  info_el :: "string option"
  detail_sections :: "detail_section list"
  clock :: string

record candidate =
  className :: string
  content :: container

text \<open>The separator of the info line, byte for byte as the source file has it.\<close>

definition bullet :: string where
  "bullet = [CHR 0xC3, CHR 0xA2, CHR 0xE2, CHR 0x82, CHR 0xAC, CHR 0xC2, CHR 0xA2]"

text \<open>\<open>product[key] = v\<close>. Assigning to \<open>__proto__\<close> creates no property.\<close>

definition assign :: "product \<Rightarrow> string \<Rightarrow> js_value \<Rightarrow> product" where
  "assign product key v = (if key = ''__proto__'' then product else product(key \<mapsto> v))"

definition set_name :: "container \<Rightarrow> product \<Rightarrow> product" where
  "set_name c product =
     (case name_el c of
        None \<Rightarrow> product
      | Some t \<Rightarrow> product(''name'' \<mapsto> JString (trim t)))"

definition info_parts :: "string \<Rightarrow> string list" where
  "info_parts t = filter (\<lambda>p. p \<noteq> []) (map trim (split_str t bullet))"

text \<open>The id text: the first part of the info line without its \<open>id:\<close>, trimmed.\<close>

definition id_text :: "string \<Rightarrow> string" where
  "id_text first = trim (replace_first_id first)"

definition set_id_and_category ::
    "(string \<Rightarrow> string) \<Rightarrow> container \<Rightarrow> product \<Rightarrow> product" where
  "set_id_and_category unicode_lower c product =
     (case info_el c of
        None \<Rightarrow> product
      | Some t \<Rightarrow>
          let parts = info_parts t;
              product1 =
                (case parts of
                   [] \<Rightarrow> product
                 | first # _ \<Rightarrow>
                     if includes_str (toLowerCase unicode_lower first) ''id:''
                     then product(''id'' \<mapsto>
                            (case parseInt (id_text first) of
                               None \<Rightarrow> JNull
                             | Some n \<Rightarrow> JNumber n))
                     else product)
          in (case parts of
                _ # second # _ \<Rightarrow> product1(''category'' \<mapsto> JString second)
              | _ \<Rightarrow> product1))"

definition detail_key :: "(string \<Rightarrow> string) \<Rightarrow> string \<Rightarrow> string" where
  "detail_key unicode_lower label = replace_s_runs (toLowerCase unicode_lower label)"

definition set_detail ::
    "(string \<Rightarrow> string) \<Rightarrow> product \<Rightarrow> detail_section \<Rightarrow> product" where
  "set_detail unicode_lower product sec =
     (case map_option trim (label_span sec) of
        None \<Rightarrow> product
      | Some label \<Rightarrow>
          if label = [] then product
          else assign product (detail_key unicode_lower label)
                 (case map_option trim (value_span sec) of
                    None \<Rightarrow> JNull
                  | Some v \<Rightarrow> JString v))"

text \<open>The product after the name, the info line and the detail blocks.\<close>

definition with_details :: "(string \<Rightarrow> string) \<Rightarrow> container \<Rightarrow> product" where
  "with_details unicode_lower c =
     foldl (set_detail unicode_lower)
       (set_id_and_category unicode_lower c (set_name c Map.empty)) (detail_sections c)"

definition set_price_value :: "product \<Rightarrow> product" where
  "set_price_value product =
     (case product ''price'' of
        Some (JString price) \<Rightarrow>
          if price \<noteq> []
          then product(''price_value'' \<mapsto>
                 (case parseFloat (keep_numeric price) of
                    None \<Rightarrow> JNull
                  | Some num \<Rightarrow> JNumber num))
          else product
      | _ \<Rightarrow> product)"

definition parse_container :: "(string \<Rightarrow> string) \<Rightarrow> container \<Rightarrow> product" where
  "parse_container unicode_lower c =
     (set_price_value (with_details unicode_lower c))(''extracted_at'' \<mapsto> JString (clock c))"

definition is_product_container :: "candidate \<Rightarrow> bool" where
  "is_product_container el =
     (includes_str (className el) ''flex-col'' \<and> includes_str (className el) ''sm:flex-row''
      \<and> includes_str (className el) ''justify-between'')"

text \<open>
  The whole script: the product objects of the candidates that pass the class test, or,
  when anything inside its \<open>try\<close> throws, the marker with the text of the error.
\<close>

datatype document = Rendered "candidate list" | Throwing string

definition in_page_script :: "(string \<Rightarrow> string) \<Rightarrow> document \<Rightarrow> product evaluate_result" where
  "in_page_script unicode_lower doc =
     (case doc of
        Rendered candidates \<Rightarrow>
          Products (map (\<lambda>el. parse_container unicode_lower (content el))
                      (filter is_product_container candidates))
      | Throwing err \<Rightarrow> ErrorMarker err)"

text \<open>The key under which a detail block ends up in the product, when it is stored at
  all, and the value stored.\<close>

definition stored_key :: "(string \<Rightarrow> string) \<Rightarrow> detail_section \<Rightarrow> string option" where
  "stored_key unicode_lower sec =
     (case map_option trim (label_span sec) of
        None \<Rightarrow> None
      | Some label \<Rightarrow>
          if label = [] \<or> detail_key unicode_lower label = ''__proto__'' then None
          else Some (detail_key unicode_lower label))"

definition stored_value :: "detail_section \<Rightarrow> js_value" where
  "stored_value sec =
     (case map_option trim (value_span sec) of
        None \<Rightarrow> JNull
      | Some v \<Rightarrow> JString v)"

text \<open>Whether a key holds white space, the letter \<open>s\<close> apart the only thing on which the
  pattern of the source and the pattern \<open>\s+\<close> could differ.\<close>

definition has_white_space :: "string \<Rightarrow> bool" where
  "has_white_space k = list_ex (\<lambda>w. sublist w k) white_space"

subsection \<open>Sample pages\<close>

text \<open>
  The lower-casing of the Unicode tables on text whose characters outside ASCII have no
  case: only the ASCII capitals change. Three product containers in ASCII, for which the
  tables are never asked: one whose id text is no number and that has a description and
  a price, one with a price that is no number, one with a name and nothing else. A
  fourth has a no-break space (U+00A0) after \<open>ID:\<close> and after the label \<open>Price\<close>.
\<close>

definition caseless_table :: "string \<Rightarrow> string" where
  "caseless_table s = map to_lower_char s"

definition chair :: container where
  "chair =
     \<lparr>name_el = Some ''Chair'', info_el = Some ''ID: n/a'',
      detail_sections =
        [\<lparr>label_span = Some ''Description'', value_span = Some ''A chair''\<rparr>,
         \<lparr>label_span = Some ''Price'', value_span = Some ''$1,234.56''\<rparr>],
      clock = ''2025-01-01T00:00:00.000Z''\<rparr>"

definition unpriced :: container where
  "unpriced =
     \<lparr>name_el = Some ''Table'', info_el = Some ''ID: 17'',
      detail_sections = [\<lparr>label_span = Some ''Price'', value_span = Some ''N/A''\<rparr>],
      clock = ''2025-01-01T00:00:00.000Z''\<rparr>"

definition bare :: container where
  "bare =
     \<lparr>name_el = Some ''Lamp'', info_el = None, detail_sections = [],
      clock = ''2025-01-01T00:00:00.000Z''\<rparr>"

definition spaced :: container where
  "spaced =
     \<lparr>name_el = Some ''Lamp'', info_el = Some (''ID:'' @ [CHR 0xC2, CHR 0xA0] @ ''12''),
      detail_sections =
        [\<lparr>label_span = Some (''Price'' @ [CHR 0xC2, CHR 0xA0]), value_span = Some ''5''\<rparr>],
      clock = ''2025-01-01T00:00:00.000Z''\<rparr>"

section \<open>Properties of the extraction loop\<close>

subsection \<open>What one extraction does to the accumulated collection\<close>

lemma all_products_extract_and_save:
  "all_products (extract_and_save_current_batch self p force_save) =
     (case extract_all_products (page_result p) of
        Inr (PyList s) \<Rightarrow> all_products self @ drop (length (all_products self)) s
      | _ \<Rightarrow> all_products self)"
  by (simp add: extract_and_save_current_batch_def save_batch_to_file_def Let_def
           split: sum.split py_value.split)

lemma all_products_extract_prefix:
  assumes "page_result p = Products s" and "prefix (all_products self) s"
  shows "all_products (extract_and_save_current_batch self p force_save) = s"
proof -
  from assms(2) obtain zs where s: "s = all_products self @ zs"
    by (auto simp: prefix_def)
  show ?thesis
    by (simp add: all_products_extract_and_save assms(1) s)
qed

lemma polling_loop_append:
  "polling_loop st (xs @ ys) =
     (case polling_loop st xs of
        Polling st1 \<Rightarrow> polling_loop st1 ys
      | Done why self1 rest \<Rightarrow> Done why self1 (rest @ ys))"
  by (induction xs arbitrary: st) (auto split: step.split)

subsection \<open>The collection after the loop\<close>

lemma loop_reads_last_snapshot:
  assumes "append_only prev ticks"
    and "prefix (all_products (this st)) prev"
    and "polling_loop st ticks = Done why self1 rest"
  shows "\<exists>read s. ticks = read @ rest \<and> read \<noteq> [] \<and> snapshot_of (last read) = Some s
           \<and> all_products self1 = s"
  using assms
proof (induction ticks arbitrary: st prev)
  case Nil
  then show ?case by simp
next
  case (Cons t ts)
  from Cons.prems(1) obtain s where snap: "snapshot_of t = Some s"
    and pre: "prefix prev s" and rest_ok: "append_only s ts"
    by (auto split: option.splits)
  from snap obtain p where t: "t = Poll p" and page: "page_result p = Products s"
    by (cases t) (auto split: evaluate_result.splits)
  have pre_this: "prefix (all_products (this st)) s"
    using Cons.prems(2) pre by (rule prefix_order.trans)
  define self1' where "self1' =
     (if batch_size (this st) \<le> int (current_count p) - int (length (all_products (this st)))
      then extract_and_save_current_batch (this st) p False else this st)"
  have pre_self1: "prefix (all_products self1') s"
    using pre_this page by (simp add: self1'_def all_products_extract_prefix)
  show ?case
  proof (cases "loop_body st t")
    case (Continue st1)
    then have "this st1 = self1'"
      by (auto simp: loop_body_def t Let_def self1'_def split: if_splits)
    with pre_self1 have "prefix (all_products (this st1)) s" by simp
    moreover from Cons.prems(3) Continue have "polling_loop st1 ts = Done why self1 rest"
      by simp
    ultimately obtain read s' where "ts = read @ rest" "read \<noteq> []"
        "snapshot_of (last read) = Some s'" "all_products self1 = s'"
      using Cons.IH [OF rest_ok] by blast
    then have "t # ts = (t # read) @ rest \<and> t # read \<noteq> []
        \<and> snapshot_of (last (t # read)) = Some s' \<and> all_products self1 = s'"
      by simp
    then show ?thesis by blast
  next
    case (Break why' self2)
    with Cons.prems(3) have eqs: "why' = why" "self2 = self1" "rest = ts"
      by simp_all
    from Break have "all_products self2 = s"
      using pre_this pre_self1 page
      by (auto simp: loop_body_def t Let_def self1'_def all_products_extract_prefix
               split: if_splits)
    then have "t # ts = [t] @ rest \<and> [t] \<noteq> [] \<and> snapshot_of (last [t]) = Some s
        \<and> all_products self1 = s"
      using eqs snap by simp
    then show ?thesis by blast
  qed
qed

lemma append_only_never_raised:
  assumes "append_only prev ticks" and "polling_loop st ticks = Done why self1 rest"
  shows "why \<noteq> Raised"
  using assms
proof (induction ticks arbitrary: st prev)
  case Nil
  then show ?case by simp
next
  case (Cons t ts)
  from Cons.prems(1) obtain s where snap: "snapshot_of t = Some s" and rest_ok: "append_only s ts"
    by (auto split: option.splits)
  from snap obtain p where t: "t = Poll p"
    by (cases t) auto
  show ?case
  proof (cases "loop_body st t")
    case (Continue st1)
    with Cons.prems(2) have "polling_loop st1 ts = Done why self1 rest" by simp
    from Cons.IH [OF rest_ok this] show ?thesis .
  next
    case (Break why' self2)
    with Cons.prems(2) have "why' = why" by simp
    with Break show ?thesis
      by (auto simp: loop_body_def t Let_def split: if_splits)
  qed
qed

text \<open>
  Claim C1. Start from a fresh object and let every tick show a snapshot that extends the
  one before it by records appended at the end. When the function has returned, the
  ticks split into those read and those never read; the accumulated collection is, as a
  list, the snapshot of the last tick read: every record of it once, in its order, none
  missing and none twice. The final file, when it can be written, holds the same list.
\<close>

theorem accumulated_equals_last_snapshot:
  assumes "append_only [] ticks"
    and "extract_product_data_in_batches (init url bsize) ticks final_ok = Some r"
  shows "\<exists>read s. ticks = read @ unread r \<and> read \<noteq> []
           \<and> snapshot_of (last read) = Some s
           \<and> all_products (final_self r) = s
           \<and> returned r
           \<and> (final_ok \<longrightarrow> map_option out_products (final_file r) = Some s)"
proof -
  from assms(2) obtain why self1 rest where
      run: "polling_loop (start (init url bsize)) ticks = Done why self1 rest"
    by (auto simp: extract_product_data_in_batches_def split: outcome.splits)
  have "prefix (all_products (this (start (init url bsize)))) []"
    by (simp add: start_def init_def)
  from loop_reads_last_snapshot [OF assms(1) this run]
  obtain read s where *: "ticks = read @ rest" "read \<noteq> []"
      "snapshot_of (last read) = Some s" "all_products self1 = s"
    by blast
  have ok: "why \<noteq> Raised"
    using assms(1) run by (rule append_only_never_raised)
  from assms(2) run ok have r: "final_self r = self1" "unread r = rest" "returned r"
      "final_file r = create_final_output self1 final_ok"
    by (auto simp: extract_product_data_in_batches_def)
  have "final_ok \<longrightarrow> map_option out_products (final_file r) = Some s"
    by (simp add: r create_final_output_def *)
  with * r show ?thesis by auto
qed

lemmas run_defs = showing_def counting_def rstrip_slash_def extract_product_data_in_batches_def start_def init_def
  loop_body_def extract_and_save_current_batch_def save_batch_to_file_def
  create_final_output_def MAX_EXPECTED_PRODUCTS_def max_consecutive_same_def Let_def

theorem accumulated_equals_last_snapshot_witness:
  "append_only [] (map showing [1, 3, 3, 3, 3, 4])
   \<and> (\<exists>r. extract_product_data_in_batches (init ''u'' 2) (map showing [1, 3, 3, 3, 3, 4]) True
            = Some r
          \<and> unread r = [showing 4]
          \<and> all_products (final_self r) = [0..<3]
          \<and> map_option out_products (final_file r) = Some [0..<3])"
proof -
  have h1: "append_only [] (map showing [1, 3, 3, 3, 3, 4])"
    by (simp add: showing_def counting_def upt_rec)
  have "\<exists>r. extract_product_data_in_batches (init ''u'' 2)
        (map showing [1, 3, 3, 3, 3, 4]) True = Some r \<and> unread r = [showing 4]"
    by (simp add: run_defs)
  then obtain r where h2: "extract_product_data_in_batches (init ''u'' 2)
        (map showing [1, 3, 3, 3, 3, 4]) True = Some r" and u: "unread r = [showing 4]"
    by blast
  from accumulated_equals_last_snapshot [OF h1 h2]
  obtain read s where *: "map showing [1, 3, 3, 3, 3, 4] = read @ unread r"
     "snapshot_of (last read) = Some s" "all_products (final_self r) = s"
     "map_option out_products (final_file r) = Some s"
    by blast
  from *(1) u have "read = map showing [1, 3, 3, 3, 3]"
    by simp
  with *(2) have s: "s = [0..<3]"
    by (simp add: showing_def counting_def)
  show ?thesis
    using h1 h2 u *(3,4) s by (intro conjI exI [of _ r]) simp_all
qed

subsection \<open>Scenario A\<close>

lemma upt_250: "[0..<250] = [0..<100] @ [100..<250]"
  by (simp add: upt_add_eq_append [of 0 100 150, simplified])

text \<open>
  Claim C2, as the code runs it. On scenario A with batch size 100 the third poll finds
  150 records beyond the 100 accumulated, and the whole delta goes into one file: the
  three files hold 100, 150 and 0 records. The third file is the forced flush at the
  stall, whose delta is empty. The total is 250 and the final file counts three batches.
\<close>

theorem scenario_A_batches:
  "extract_product_data_in_batches (init url 100) scenario_A True =
     Some \<lparr>returned = True, exit_by = Stalled,
       final_self =
         \<lparr>base_url = rstrip_slash url, batch_size = 100, all_products = [0..<250], batch_number = 4,
           written_batches =
             [\<lparr>file_batch_number = 1, products_in_batch = 100, total_products_so_far = 100,
                file_base_url = rstrip_slash url, products = [0..<100]\<rparr>,
              \<lparr>file_batch_number = 2, products_in_batch = 150, total_products_so_far = 250,
                file_base_url = rstrip_slash url, products = [100..<250]\<rparr>,
              \<lparr>file_batch_number = 3, products_in_batch = 0, total_products_so_far = 250,
                file_base_url = rstrip_slash url, products = []\<rparr>]\<rparr>,
       final_file =
         Some \<lparr>total_products = 250, total_batches = 3, out_batch_size = 100,
                out_base_url = rstrip_slash url, out_products = [0..<250]\<rparr>,
       unread = []\<rparr>"
  by (simp add: scenario_A_def run_defs upt_250)

text \<open>
  Claim C2, as written, fails: the files do not hold the first 100, the next 100 and the
  remaining 50 records.
\<close>

theorem scenario_A_not_100_100_50:
  "map_option written_products
     (extract_product_data_in_batches (init ''https://hiring.idenhq.com'' 100) scenario_A True)
   \<noteq> Some [[0..<100], [100..<200], [200..<250]]"
proof
  assume "map_option written_products
     (extract_product_data_in_batches (init ''https://hiring.idenhq.com'' 100) scenario_A True)
   = Some [[0..<100], [100..<200], [200..<250]]"
  then have "[100..<250] = [100..<(200::nat)]"
    by (simp add: scenario_A_def written_products_def run_defs upt_250)
  then have "length [100..<250] = length [100..<(200::nat)]"
    by (rule arg_cong)
  then show False by simp
qed

subsection \<open>Flushing twice\<close>

text \<open>
  Claim C6. Call \<open>extract_and_save_current_batch\<close> a second time while the page
  answers the extraction as it did the first time. The accumulated collection stays as
  the first call left it, whatever the two force flags are; the delta of the second call,
  the snapshot sliced at the accumulated length of that moment, is empty; and a second
  call that is not forced changes nothing at all.
\<close>

theorem flush_twice_adds_nothing:
  assumes "page_result q = page_result p"
  shows "all_products (extract_and_save_current_batch
             (extract_and_save_current_batch self p force1) q force2)
           = all_products (extract_and_save_current_batch self p force1)
       \<and> (\<forall>s. extract_all_products (page_result q) = Inr (PyList s) \<longrightarrow>
             slice_from (PyList s)
               (length (all_products (extract_and_save_current_batch self p force1))) = Inr [])
       \<and> extract_and_save_current_batch (extract_and_save_current_batch self p force1) q False
           = extract_and_save_current_batch self p force1"
proof -
  let ?self1 = "extract_and_save_current_batch self p force1"
  have empty: "drop (length (all_products ?self1)) s = []"
    if "extract_all_products (page_result q) = Inr (PyList s)" for s
    using that assms by (simp add: all_products_extract_and_save)
  have "all_products (extract_and_save_current_batch ?self1 q force2) = all_products ?self1"
    by (cases "extract_all_products (page_result q)")
       (auto simp: all_products_extract_and_save [of ?self1] empty split: py_value.split)
  moreover have "extract_and_save_current_batch ?self1 q False = ?self1"
  proof (cases "extract_all_products (page_result q)")
    case (Inl e)
    then show ?thesis
      by (simp add: extract_and_save_current_batch_def [of ?self1])
  next
    case (Inr b)
    show ?thesis
    proof (cases b)
      case (PyList s)
      with Inr empty [of s] show ?thesis
        by (simp add: extract_and_save_current_batch_def [of ?self1])
    next
      case (PyDict m)
      with Inr show ?thesis
        by (simp add: extract_and_save_current_batch_def [of ?self1])
    qed
  qed
  ultimately show ?thesis
    using empty by simp
qed

theorem flush_twice_adds_nothing_witness:
  "page_result \<lparr>current_count = 3, page_result = Products [0..<3], disk_ok = False\<rparr>
     = page_result \<lparr>current_count = 3, page_result = Products [0..<(3::nat)], disk_ok = True\<rparr>
   \<and> extract_all_products
        (page_result \<lparr>current_count = 3, page_result = Products [0..<(3::nat)], disk_ok = False\<rparr>)
       = Inr (PyList [0..<3])
   \<and> slice_from (PyList [0..<3])
        (length (all_products (extract_and_save_current_batch (init ''u'' 2)
           \<lparr>current_count = 3, page_result = Products [0..<(3::nat)], disk_ok = True\<rparr> False)))
       = Inr []"
  using flush_twice_adds_nothing
    [of "\<lparr>current_count = 3, page_result = Products [0..<(3::nat)], disk_ok = False\<rparr>"
        "\<lparr>current_count = 3, page_result = Products [0..<(3::nat)], disk_ok = True\<rparr>"
        "init ''u'' 2" False True]
  by simp

subsection \<open>A poll whose extraction script throws\<close>

text \<open>
  Claim C9. Let the in-page script throw during a poll, so that its \<open>catch\<close> hands
  back the marker with the text of the error (a text that is not empty, as the text of
  a thrown error is). Then \<open>extract_all_products\<close> returns the empty list; the
  accumulated collection is left as it was by an extraction of that poll, forced or not,
  and an extraction that is not forced changes nothing at all; the iteration never
  leaves through the outer \<open>except\<close>; and unless the poll is the third unchanged one
  or shows more than the ceiling, the loop goes on to the next tick with the object as
  it was.
\<close>

theorem extraction_error_is_empty_poll:
  assumes "page_result p = ErrorMarker msg" and "msg \<noteq> []"
  shows "extract_all_products (page_result p) = Inr (PyList [])
       \<and> all_products (extract_and_save_current_batch self p force_save) = all_products self
       \<and> extract_and_save_current_batch self p False = self
       \<and> (case loop_body st (Poll p) of
             Continue st1 \<Rightarrow> all_products (this st1) = all_products (this st)
           | Break why self1 \<Rightarrow> why \<noteq> Raised \<and> all_products self1 = all_products (this st))
       \<and> (\<not> (current_count p = last_product_count st
               \<and> max_consecutive_same \<le> consecutive_same_count st + 1)
            \<and> current_count p \<le> MAX_EXPECTED_PRODUCTS \<longrightarrow>
          polling_loop st (Poll p # rest) =
            polling_loop
              \<lparr>this = this st, last_product_count = current_count p,
                consecutive_same_count =
                  (if current_count p = last_product_count st
                   then consecutive_same_count st + 1 else 0)\<rparr> rest)"
proof -
  have e: "extract_all_products (page_result p) = Inr (PyList [])"
    using assms by simp
  have keep: "all_products (extract_and_save_current_batch s p f) = all_products s" for s f
    by (simp add: all_products_extract_and_save e)
  have noop: "extract_and_save_current_batch s p False = s" for s
    by (simp add: extract_and_save_current_batch_def e)
  have body: "case loop_body st (Poll p) of
             Continue st1 \<Rightarrow> all_products (this st1) = all_products (this st)
           | Break why self1 \<Rightarrow> why \<noteq> Raised \<and> all_products self1 = all_products (this st)"
    by (simp add: loop_body_def Let_def keep noop)
  have go: "polling_loop st (Poll p # rest) =
            polling_loop
              \<lparr>this = this st, last_product_count = current_count p,
                consecutive_same_count =
                  (if current_count p = last_product_count st
                   then consecutive_same_count st + 1 else 0)\<rparr> rest"
    if "\<not> (current_count p = last_product_count st
               \<and> max_consecutive_same \<le> consecutive_same_count st + 1)"
      and "current_count p \<le> MAX_EXPECTED_PRODUCTS"
    using that by (auto simp: loop_body_def Let_def noop)
  from e keep noop body go show ?thesis by blast
qed

theorem extraction_error_is_empty_poll_witness:
  "page_result \<lparr>current_count = 7, page_result = ErrorMarker ''TypeError: x is null'',
                 disk_ok = True\<rparr> = (ErrorMarker ''TypeError: x is null'' :: nat evaluate_result)
   \<and> ''TypeError: x is null'' \<noteq> []
   \<and> \<not> (7 = last_product_count (start (init ''u'' 2 :: nat automation))
          \<and> max_consecutive_same \<le> consecutive_same_count (start (init ''u'' 2 :: nat automation)) + 1)
   \<and> 7 \<le> MAX_EXPECTED_PRODUCTS
   \<and> polling_loop (start (init ''u'' 2))
        [Poll \<lparr>current_count = 7, page_result = ErrorMarker ''TypeError: x is null'',
               disk_ok = True\<rparr>]
       = Polling \<lparr>this = (init ''u'' 2 :: nat automation), last_product_count = 7,
                  consecutive_same_count = 0\<rparr>"
  using extraction_error_is_empty_poll
    [of "\<lparr>current_count = 7, page_result = ErrorMarker ''TypeError: x is null'',
           disk_ok = True\<rparr>" "''TypeError: x is null''" "init ''u'' 2 :: nat automation" False
        "start (init ''u'' 2)" "[]"]
  by (simp add: start_def MAX_EXPECTED_PRODUCTS_def)

subsection \<open>A forced flush with nothing new\<close>

text \<open>
  Claim C10. Let a forced flush find no record beyond the accumulated collection, on a
  disk that can be written. Then one more batch file is written, with an empty product
  list and \<open>products_in_batch = 0\<close>, and the batch number grows by one, so that the
  final file counts one batch more than it would have before. In particular a page that
  shows nothing at three polls in a row ends the run, for every batch size, with
  \<open>total_products = 0\<close> and exactly one batch file, an empty one.
\<close>

theorem forced_flush_of_empty_delta:
  assumes "extract_all_products (page_result p) = Inr (PyList s)"
    and "length s \<le> length (all_products self)"
    and "disk_ok p"
  shows "extract_and_save_current_batch self p True =
           self\<lparr>written_batches := written_batches self @
                   [\<lparr>file_batch_number = batch_number self, products_in_batch = 0,
                     total_products_so_far = length (all_products self),
                     file_base_url = base_url self, products = []\<rparr>],
                 batch_number := batch_number self + 1\<rparr>
       \<and> map_option total_batches
            (create_final_output (extract_and_save_current_batch self p True) True)
           = Some (batch_number self)
       \<and> map_option total_batches (create_final_output self True) = Some (batch_number self - 1)
       \<and> extract_product_data_in_batches (init url bsize)
            (empty_page # empty_page # empty_page # rest) True =
           Some \<lparr>returned = True, exit_by = Stalled,
                  final_self =
                    \<lparr>base_url = rstrip_slash url, batch_size = bsize, all_products = [], batch_number = 2,
                      written_batches =
                        [\<lparr>file_batch_number = 1, products_in_batch = 0,
                          total_products_so_far = 0, file_base_url = rstrip_slash url, products = []\<rparr>]\<rparr>,
                  final_file =
                    Some \<lparr>total_products = 0, total_batches = 1, out_batch_size = bsize,
                           out_base_url = rstrip_slash url, out_products = []\<rparr>,
                  unread = rest\<rparr>"
proof -
  have flush: "extract_and_save_current_batch self p True =
           self\<lparr>written_batches := written_batches self @
                   [\<lparr>file_batch_number = batch_number self, products_in_batch = 0,
                     total_products_so_far = length (all_products self),
                     file_base_url = base_url self, products = []\<rparr>],
                 batch_number := batch_number self + 1\<rparr>"
    using assms by (simp add: extract_and_save_current_batch_def save_batch_to_file_def)
  have counted: "map_option total_batches
            (create_final_output (extract_and_save_current_batch self p True) True)
           = Some (batch_number self)"
    by (simp add: flush create_final_output_def)
  have before: "map_option total_batches (create_final_output self True)
      = Some (batch_number self - 1)"
    by (simp add: create_final_output_def)
  have run: "extract_product_data_in_batches (init url bsize)
            (empty_page # empty_page # empty_page # rest) True =
           Some \<lparr>returned = True, exit_by = Stalled,
                  final_self =
                    \<lparr>base_url = rstrip_slash url, batch_size = bsize, all_products = [], batch_number = 2,
                      written_batches =
                        [\<lparr>file_batch_number = 1, products_in_batch = 0,
                          total_products_so_far = 0, file_base_url = rstrip_slash url, products = []\<rparr>]\<rparr>,
                  final_file =
                    Some \<lparr>total_products = 0, total_batches = 1, out_batch_size = bsize,
                           out_base_url = rstrip_slash url, out_products = []\<rparr>,
                  unread = rest\<rparr>"
    by (simp add: empty_page_def run_defs)
  from flush counted before run show ?thesis by blast
qed

theorem forced_flush_of_empty_delta_witness:
  "extract_all_products (page_result \<lparr>current_count = 2, page_result = Products [0..<(2::nat)],
       disk_ok = True\<rparr>) = Inr (PyList [0..<2])
   \<and> length [0..<(2::nat)]
        \<le> length (all_products \<lparr>base_url = ''u'', batch_size = 5, all_products = [0..<(2::nat)],
              batch_number = 1, written_batches = []\<rparr>)
   \<and> disk_ok \<lparr>current_count = 2, page_result = Products [0..<(2::nat)], disk_ok = True\<rparr>
   \<and> extract_and_save_current_batch
        \<lparr>base_url = ''u'', batch_size = 5, all_products = [0..<(2::nat)],
              batch_number = 1, written_batches = []\<rparr>
        \<lparr>current_count = 2, page_result = Products [0..<(2::nat)], disk_ok = True\<rparr> True
      = \<lparr>base_url = ''u'', batch_size = 5, all_products = [0..<(2::nat)], batch_number = 2,
          written_batches =
            [\<lparr>file_batch_number = 1, products_in_batch = 0, total_products_so_far = 2,
              file_base_url = ''u'', products = []\<rparr>]\<rparr>"
proof -
  let ?p = "\<lparr>current_count = 2, page_result = Products [0..<(2::nat)], disk_ok = True\<rparr>"
  let ?self = "\<lparr>base_url = ''u'', batch_size = 5, all_products = [0..<(2::nat)],
              batch_number = 1, written_batches = []\<rparr>"
  have h1: "extract_all_products (page_result ?p) = Inr (PyList [0..<2])"
    by simp
  have h2: "length [0..<(2::nat)] \<le> length (all_products ?self)"
    by simp
  have h3: "disk_ok ?p"
    by simp
  from forced_flush_of_empty_delta [OF h1 h2 h3, of "''u''" 5 "[]"]
  have "extract_and_save_current_batch ?self ?p True =
      ?self\<lparr>written_batches := written_batches ?self @
                   [\<lparr>file_batch_number = batch_number ?self, products_in_batch = 0,
                     total_products_so_far = length (all_products ?self),
                     file_base_url = base_url ?self, products = []\<rparr>],
                 batch_number := batch_number ?self + 1\<rparr>"
    by (rule conjunct1)
  then have "extract_and_save_current_batch ?self ?p True =
      \<lparr>base_url = ''u'', batch_size = 5, all_products = [0..<(2::nat)], batch_number = 2,
          written_batches =
            [\<lparr>file_batch_number = 1, products_in_batch = 0, total_products_so_far = 2,
              file_base_url = ''u'', products = []\<rparr>]\<rparr>"
    by simp
  with h1 h2 h3 show ?thesis
    by (intro conjI)
qed

subsection \<open>The stall counter\<close>

lemma loop_body_Continue:
  "loop_body st (Poll p) = Continue st1 \<longleftrightarrow>
     \<not> (current_count p = last_product_count st \<and> 2 \<le> consecutive_same_count st)
     \<and> current_count p \<le> MAX_EXPECTED_PRODUCTS
     \<and> st1 = \<lparr>this = (if batch_size (this st)
                           \<le> int (current_count p) - int (length (all_products (this st)))
                      then extract_and_save_current_batch (this st) p False
                      else this st),
              last_product_count = current_count p,
              consecutive_same_count =
                (if current_count p = last_product_count st
                 then consecutive_same_count st + 1 else 0)\<rparr>"
  by (auto simp: loop_body_def Let_def max_consecutive_same_def)

lemma loop_body_Stalled:
  "(\<exists>self1. loop_body st (Poll p) = Break Stalled self1) \<longleftrightarrow>
     current_count p = last_product_count st \<and> 2 \<le> consecutive_same_count st"
  by (auto simp: loop_body_def Let_def max_consecutive_same_def)

lemma loop_body_Break:
  "loop_body st (Poll p) = Break why self1 \<Longrightarrow>
     why \<noteq> Raised \<and> (\<exists>self0. self1 = extract_and_save_current_batch self0 p True)
     \<and> (why = LimitExceeded \<longrightarrow> MAX_EXPECTED_PRODUCTS < current_count p)"
  by (auto simp: loop_body_def Let_def split: if_splits)

lemma polling_loop_snoc_Polling:
  "polling_loop st (ticks @ [t]) = Polling st1 \<longleftrightarrow>
     (\<exists>st0. polling_loop st ticks = Polling st0 \<and> loop_body st0 t = Continue st1)"
  by (auto simp: polling_loop_append split: outcome.splits step.splits)

lemma polling_loop_unread_shorter:
  "polling_loop st ticks = Done why self1 rest \<Longrightarrow> length rest < length ticks"
proof (induction ticks arbitrary: st)
  case Nil
  then show ?case by simp
next
  case (Cons t ts)
  show ?case
  proof (cases "loop_body st t")
    case (Continue st1)
    with Cons.prems have "polling_loop st1 ts = Done why self1 rest" by simp
    from Cons.IH [OF this] show ?thesis by simp
  next
    case (Break why' self2)
    with Cons.prems show ?thesis by simp
  qed
qed

text \<open>What the two local variables hold while the loop is polling.\<close>

lemma stall_counter_invariant:
  assumes "polling_loop (start self) (map Poll ps) = Polling st"
  shows "last_product_count st = previous_count (map current_count ps) (length ps)
       \<and> consecutive_same_count st \<le> 2
       \<and> (consecutive_same_count st = 0 \<longleftrightarrow>
            ps = [] \<or> \<not> unchanged (map current_count ps) (length ps - 1))
       \<and> (consecutive_same_count st = 2 \<longleftrightarrow>
            2 \<le> length ps \<and> unchanged (map current_count ps) (length ps - 1)
            \<and> unchanged (map current_count ps) (length ps - 2))"
  using assms
proof (induction ps arbitrary: st rule: rev_induct)
  case Nil
  then show ?case by (auto simp: start_def previous_count_def)
next
  case (snoc p ps)
  let ?cs = "map current_count ps"
  from snoc.prems obtain st0 where run0: "polling_loop (start self) (map Poll ps) = Polling st0"
      and body: "loop_body st0 (Poll p) = Continue st"
    by (auto simp: polling_loop_snoc_Polling)
  from snoc.IH [OF run0] have
      last0: "last_product_count st0 = previous_count ?cs (length ps)"
      and le2: "consecutive_same_count st0 \<le> 2"
      and zero: "consecutive_same_count st0 = 0 \<longleftrightarrow>
            ps = [] \<or> \<not> unchanged ?cs (length ps - 1)"
      and two: "consecutive_same_count st0 = 2 \<longleftrightarrow>
            2 \<le> length ps \<and> unchanged ?cs (length ps - 1) \<and> unchanged ?cs (length ps - 2)"
    by blast+
  from body have nostall:
      "\<not> (current_count p = last_product_count st0 \<and> 2 \<le> consecutive_same_count st0)"
    and last: "last_product_count st = current_count p"
    and cnt: "consecutive_same_count st =
                (if current_count p = last_product_count st0
                 then consecutive_same_count st0 + 1 else 0)"
    by (auto simp: loop_body_Continue)
  have prev_last: "previous_count (?cs @ [current_count p]) (length ps) = last_product_count st0"
    by (cases ps rule: rev_cases) (auto simp: last0 previous_count_def nth_append)
  have un_new: "unchanged (?cs @ [current_count p]) (length ps)
      \<longleftrightarrow> current_count p = last_product_count st0"
    by (simp add: unchanged_def prev_last nth_append)
  have un_old: "unchanged (?cs @ [current_count p]) k \<longleftrightarrow> unchanged ?cs k" if "k < length ps" for k
    using that by (auto simp: unchanged_def previous_count_def nth_append)
  have c1: "last_product_count st
      = previous_count (map current_count (ps @ [p])) (length (ps @ [p]))"
    by (simp add: last previous_count_def nth_append)
  have c2: "consecutive_same_count st \<le> 2"
    using nostall le2 by (auto simp: cnt)
  have c3: "consecutive_same_count st = 0 \<longleftrightarrow>
      ps @ [p] = [] \<or> \<not> unchanged (map current_count (ps @ [p])) (length (ps @ [p]) - 1)"
    by (simp add: cnt un_new)
  have len: "length (ps @ [p]) - 1 = length ps" "length (ps @ [p]) - 2 = length ps - 1"
      "2 \<le> length (ps @ [p]) \<longleftrightarrow> ps \<noteq> []"
      "map current_count (ps @ [p]) = ?cs @ [current_count p]"
    by (cases ps; simp)+
  have c4: "consecutive_same_count st = 2 \<longleftrightarrow>
            2 \<le> length (ps @ [p]) \<and> unchanged (map current_count (ps @ [p])) (length (ps @ [p]) - 1)
            \<and> unchanged (map current_count (ps @ [p])) (length (ps @ [p]) - 2)"
    unfolding len
  proof (cases "current_count p = last_product_count st0")
    case False
    then show "consecutive_same_count st = 2 \<longleftrightarrow>
        ps \<noteq> [] \<and> unchanged (?cs @ [current_count p]) (length ps)
        \<and> unchanged (?cs @ [current_count p]) (length ps - 1)"
      by (simp add: cnt un_new)
  next
    case True
    with nostall have "consecutive_same_count st0 < 2" by simp
    with True have cnt2: "consecutive_same_count st = 2 \<longleftrightarrow> consecutive_same_count st0 \<noteq> 0"
      by (auto simp: cnt)
    show "consecutive_same_count st = 2 \<longleftrightarrow>
        ps \<noteq> [] \<and> unchanged (?cs @ [current_count p]) (length ps)
        \<and> unchanged (?cs @ [current_count p]) (length ps - 1)"
    proof (cases "ps = []")
      case True
      with zero cnt2 show ?thesis by simp
    next
      case False
      then have "length ps - 1 < length ps" by (cases ps) simp_all
      then have "unchanged (?cs @ [current_count p]) (length ps - 1)
          = unchanged ?cs (length ps - 1)"
        by (rule un_old)
      moreover from un_new True have "unchanged (?cs @ [current_count p]) (length ps)"
        by simp
      ultimately show ?thesis
        using False zero cnt2 by blast
    qed
  qed
  from c1 c2 c3 c4 show ?case by blast
qed

lemma stall_iff_three_unchanged:
  assumes "polling_loop (start self) (map Poll ps) = Polling st"
  shows "(\<exists>self1. polling_loop (start self) (map Poll ps @ Poll p # rest)
                      = Done Stalled self1 rest)
            \<longleftrightarrow> three_unchanged (map current_count ps @ [current_count p]) (length ps)"
proof -
  let ?cs = "map current_count ps"
  note inv = stall_counter_invariant [OF assms]
  have run: "polling_loop (start self) (map Poll ps @ Poll p # rest)
      = (case loop_body st (Poll p) of
           Break why self1 \<Rightarrow> Done why self1 rest
         | Continue st1 \<Rightarrow> polling_loop st1 rest)"
    by (simp add: polling_loop_append assms)
  have prev_last: "previous_count (?cs @ [current_count p]) (length ps) = last_product_count st"
    using inv by (cases ps rule: rev_cases) (auto simp: previous_count_def nth_append)
  have un_new: "unchanged (?cs @ [current_count p]) (length ps)
      \<longleftrightarrow> current_count p = last_product_count st"
    by (simp add: unchanged_def prev_last nth_append)
  have un_old: "unchanged (?cs @ [current_count p]) k \<longleftrightarrow> unchanged ?cs k" if "k < length ps" for k
    using that by (auto simp: unchanged_def previous_count_def nth_append)
  have three: "three_unchanged (?cs @ [current_count p]) (length ps)
      \<longleftrightarrow> current_count p = last_product_count st \<and> 2 \<le> consecutive_same_count st"
  proof -
    have "2 \<le> consecutive_same_count st \<longleftrightarrow> consecutive_same_count st = 2"
      using inv by arith
    then have c: "2 \<le> consecutive_same_count st \<longleftrightarrow>
        2 \<le> length ps \<and> unchanged ?cs (length ps - 1) \<and> unchanged ?cs (length ps - 2)"
      using inv by simp
    show ?thesis
    proof (cases "2 \<le> length ps")
      case False
      with c show ?thesis by (simp add: three_unchanged_def)
    next
      case True
      then have "length ps - 1 < length ps" "length ps - 2 < length ps" by simp_all
      then have "unchanged (?cs @ [current_count p]) (length ps - 1) = unchanged ?cs (length ps - 1)"
          "unchanged (?cs @ [current_count p]) (length ps - 2) = unchanged ?cs (length ps - 2)"
        by (simp_all only: un_old)
      with c True show ?thesis
        by (auto simp: three_unchanged_def un_new)
    qed
  qed
  have "(\<exists>self1. polling_loop (start self) (map Poll ps @ Poll p # rest)
                      = Done Stalled self1 rest)
      \<longleftrightarrow> (\<exists>self1. loop_body st (Poll p) = Break Stalled self1)"
    by (auto simp: run split: step.splits dest: polling_loop_unread_shorter)
  then show ?thesis
    by (simp add: loop_body_Stalled three)
qed

lemma forced_flush_effect:
  assumes "page_result p = Products s"
  shows "extract_and_save_current_batch self p True =
           self\<lparr>all_products := all_products self @ drop (length (all_products self)) s,
                written_batches := written_batches self @
                  (if disk_ok p
                   then [\<lparr>file_batch_number = batch_number self,
                          products_in_batch = length (drop (length (all_products self)) s),
                          total_products_so_far =
                            length (all_products self @ drop (length (all_products self)) s),
                          file_base_url = base_url self,
                          products = drop (length (all_products self)) s\<rparr>]
                   else []),
                batch_number := batch_number self + 1\<rparr>"
  using assms by (simp add: extract_and_save_current_batch_def save_batch_to_file_def Let_def)

lemma stall_exit_forces_flush:
  assumes "polling_loop (start self) (map Poll ps) = Polling st"
  shows "polling_loop (start self) (map Poll ps @ Poll p # rest)
             = Done Stalled (extract_and_save_current_batch (this st) p True) rest
         \<longleftrightarrow> three_unchanged (map current_count ps @ [current_count p]) (length ps)"
proof -
  have run: "polling_loop (start self) (map Poll ps @ Poll p # rest)
      = (case loop_body st (Poll p) of
           Break why self1 \<Rightarrow> Done why self1 rest
         | Continue st1 \<Rightarrow> polling_loop st1 rest)"
    by (simp add: polling_loop_append assms)
  have body: "loop_body st (Poll p) = Break Stalled self1
      \<longleftrightarrow> self1 = extract_and_save_current_batch (this st) p True
          \<and> (\<exists>self2. loop_body st (Poll p) = Break Stalled self2)" for self1
    by (auto simp: loop_body_def Let_def split: if_splits)
  have "polling_loop (start self) (map Poll ps @ Poll p # rest)
             = Done Stalled (extract_and_save_current_batch (this st) p True) rest
      \<longleftrightarrow> (\<exists>self1. polling_loop (start self) (map Poll ps @ Poll p # rest)
                      = Done Stalled self1 rest)"
    using body by (auto simp: run split: step.splits dest: polling_loop_unread_shorter)
  with stall_iff_three_unchanged [OF assms, of p rest] show ?thesis
    by simp
qed

text \<open>
  Claim C3. Let the loop have read the polls \<open>ps\<close> and still be polling. Then
  \<open>last_product_count\<close> is the count of the poll before; the counter is 0 exactly when
  no poll was read yet or the last poll observed a count that differs from the
  observation before it; the counter is below 3; and the loop leaves as stalled at the
  next poll \<open>p\<close> exactly when \<open>p\<close> and the two polls before it each observed the count
  of the observation just before. Since that needs three polls, no run stalls within two.
  The stalled exit reads no further tick and leaves the object that the forced flush of
  \<open>p\<close> makes of the loop's object: when the page shows a record list, the records beyond
  the accumulated ones are appended, the batch number grows by one, and on a disk that
  can be written one batch file with exactly those records is added.
\<close>

theorem stall_after_three_unchanged_polls:
  assumes "polling_loop (start self) (map Poll ps) = Polling st"
  shows "last_product_count st = previous_count (map current_count ps) (length ps)
       \<and> (consecutive_same_count st = 0 \<longleftrightarrow>
            ps = [] \<or> \<not> unchanged (map current_count ps) (length ps - 1))
       \<and> consecutive_same_count st < max_consecutive_same
       \<and> ((\<exists>self1. polling_loop (start self) (map Poll ps @ Poll p # rest)
                      = Done Stalled self1 rest)
            \<longleftrightarrow> three_unchanged (map current_count ps @ [current_count p]) (length ps))
       \<and> (polling_loop (start self) (map Poll ps @ Poll p # rest)
             = Done Stalled (extract_and_save_current_batch (this st) p True) rest
            \<longleftrightarrow> three_unchanged (map current_count ps @ [current_count p]) (length ps))
       \<and> (\<forall>s. page_result p = Products s \<longrightarrow>
             extract_and_save_current_batch (this st) p True =
               (this st)\<lparr>all_products :=
                            all_products (this st) @ drop (length (all_products (this st))) s,
                          written_batches := written_batches (this st) @
                            (if disk_ok p
                             then [\<lparr>file_batch_number = batch_number (this st),
                                    products_in_batch =
                                      length (drop (length (all_products (this st))) s),
                                    total_products_so_far =
                                      length (all_products (this st)
                                              @ drop (length (all_products (this st))) s),
                                    file_base_url = base_url (this st),
                                    products = drop (length (all_products (this st))) s\<rparr>]
                             else []),
                          batch_number := batch_number (this st) + 1\<rparr>)"
proof -
  note inv = stall_counter_invariant [OF assms]
  have "consecutive_same_count st < max_consecutive_same"
    using inv by (simp add: max_consecutive_same_def)
  with inv stall_iff_three_unchanged [OF assms, of p rest]
    stall_exit_forces_flush [OF assms, of p rest] forced_flush_effect [of p _ "this st"]
  show ?thesis
    by blast
qed

theorem stall_after_three_unchanged_polls_witness:
  "polling_loop (start (init ''u'' 9)) (map Poll [counting 5, counting 5, counting 5])
     = Polling \<lparr>this = init ''u'' 9, last_product_count = 5, consecutive_same_count = 2\<rparr>
   \<and> three_unchanged [5, 5, 5, 5] 3
   \<and> polling_loop (start (init ''u'' 9))
         (map Poll [counting 5, counting 5, counting 5] @ [Poll (counting 5)])
       = Done Stalled
           \<lparr>base_url = ''u'', batch_size = 9, all_products = [0..<5], batch_number = 2,
             written_batches =
               [\<lparr>file_batch_number = 1, products_in_batch = 5, total_products_so_far = 5,
                 file_base_url = ''u'', products = [0..<5]\<rparr>]\<rparr> []
   \<and> polling_loop (start (init ''u'' 9)) (map Poll [counting 5, counting 5, counting 6])
     = Polling \<lparr>this = init ''u'' 9, last_product_count = 6, consecutive_same_count = 0\<rparr>
   \<and> \<not> unchanged [5, 5, 6] 2"
proof -
  let ?ps = "[counting 5, counting 5, counting 5]"
  let ?st = "\<lparr>this = init ''u'' 9 :: nat automation, last_product_count = 5,
     consecutive_same_count = 2\<rparr>"
  have h: "polling_loop (start (init ''u'' 9)) (map Poll ?ps) = Polling ?st"
    by (simp add: run_defs)
  have t0: "three_unchanged [5, 5, 5, 5] 3"
    by (simp add: three_unchanged_def unchanged_def previous_count_def
          numeral_3_eq_3 numeral_2_eq_2)
  then have t: "three_unchanged (map current_count ?ps @ [current_count (counting 5)])
      (length ?ps)"
    by (simp add: counting_def numeral_3_eq_3)
  have page: "page_result (counting 5) = Products [0..<5]"
    by (simp add: counting_def)
  note inst = stall_after_three_unchanged_polls [OF h, of "counting 5" "[]"]
  from inst have "polling_loop (start (init ''u'' 9)) (map Poll ?ps @ [Poll (counting 5)])
        = Done Stalled (extract_and_save_current_batch (this ?st) (counting 5) True) []
      \<longleftrightarrow> three_unchanged (map current_count ?ps @ [current_count (counting 5)]) (length ?ps)"
    by (elim conjE)
  with t have s: "polling_loop (start (init ''u'' 9)) (map Poll ?ps @ [Poll (counting 5)])
        = Done Stalled (extract_and_save_current_batch (this ?st) (counting 5) True) []"
    by (rule iffD2 [rotated])
  from inst page have "extract_and_save_current_batch (this ?st) (counting 5) True =
      (this ?st)\<lparr>all_products :=
                   all_products (this ?st) @ drop (length (all_products (this ?st))) [0..<5],
                 written_batches := written_batches (this ?st) @
                   (if disk_ok (counting 5)
                    then [\<lparr>file_batch_number = batch_number (this ?st),
                           products_in_batch =
                             length (drop (length (all_products (this ?st))) [0..<5]),
                           total_products_so_far =
                             length (all_products (this ?st)
                                     @ drop (length (all_products (this ?st))) [0..<5]),
                           file_base_url = base_url (this ?st),
                           products = drop (length (all_products (this ?st))) [0..<5]\<rparr>]
                    else []),
                 batch_number := batch_number (this ?st) + 1\<rparr>"
    by blast
  then have f: "extract_and_save_current_batch (this ?st) (counting 5) True =
      \<lparr>base_url = ''u'', batch_size = 9, all_products = [0..<5], batch_number = 2,
             written_batches =
               [\<lparr>file_batch_number = 1, products_in_batch = 5, total_products_so_far = 5,
                 file_base_url = ''u'', products = [0..<5]\<rparr>]\<rparr>"
    by (simp add: init_def rstrip_slash_def counting_def)
  have h2: "polling_loop (start (init ''u'' 9)) (map Poll [counting 5, counting 5, counting 6])
     = Polling \<lparr>this = init ''u'' 9, last_product_count = 6, consecutive_same_count = 0\<rparr>"
    by (simp add: run_defs)
  have u: "\<not> unchanged [5, 5, 6] 2"
    by (simp add: unchanged_def previous_count_def numeral_2_eq_2)
  from h t0 s [unfolded f] h2 u show ?thesis by (intro conjI)
qed

subsection \<open>Termination\<close>

lemma polling_loop_Done_split:
  "polling_loop st ticks = Done why self1 rest \<Longrightarrow>
     \<exists>read. ticks = read @ rest \<and> read \<noteq> [] \<and> polling_loop st read = Done why self1 []"
proof (induction ticks arbitrary: st)
  case Nil
  then show ?case by simp
next
  case (Cons t ts)
  show ?case
  proof (cases "loop_body st t")
    case (Continue st1)
    with Cons.prems have "polling_loop st1 ts = Done why self1 rest" by simp
    from Cons.IH [OF this] obtain read where "ts = read @ rest" "read \<noteq> []"
        "polling_loop st1 read = Done why self1 []"
      by blast
    with Continue have "t # ts = (t # read) @ rest \<and> t # read \<noteq> []
        \<and> polling_loop st (t # read) = Done why self1 []"
      by simp
    then show ?thesis by blast
  next
    case (Break why' self2)
    with Cons.prems have "t # ts = [t] @ rest \<and> [t] \<noteq> []
        \<and> polling_loop st [t] = Done why self1 []"
      by simp
    then show ?thesis by blast
  qed
qed

lemma polls_never_raise:
  "polling_loop st (map Poll ps) = Done why self1 rest \<Longrightarrow> why \<noteq> Raised"
proof (induction ps arbitrary: st)
  case Nil
  then show ?case by simp
next
  case (Cons p ps)
  show ?case
  proof (cases "loop_body st (Poll p)")
    case (Continue st1)
    with Cons.prems have "polling_loop st1 (map Poll ps) = Done why self1 rest" by simp
    from Cons.IH [OF this] show ?thesis .
  next
    case (Break why' self2)
    with Cons.prems have "why' = why" by simp
    with Break loop_body_Break [of st p why' self2] show ?thesis by simp
  qed
qed

lemma limit_exit_last_poll:
  "polling_loop st (map Poll ps) = Done LimitExceeded self1 [] \<Longrightarrow>
     ps \<noteq> [] \<and> MAX_EXPECTED_PRODUCTS < current_count (last ps)"
proof (induction ps arbitrary: st)
  case Nil
  then show ?case by simp
next
  case (Cons p ps)
  show ?case
  proof (cases "loop_body st (Poll p)")
    case (Continue st1)
    with Cons.prems have "polling_loop st1 (map Poll ps) = Done LimitExceeded self1 []" by simp
    from Cons.IH [OF this] show ?thesis by simp
  next
    case (Break why' self2)
    with Cons.prems have "why' = LimitExceeded" "ps = []" by simp_all
    with Break loop_body_Break [of st p why' self2] show ?thesis by simp
  qed
qed

lemma stall_exit_three_unchanged:
  assumes "polling_loop (start self) (map Poll ps) = Done Stalled self1 []"
  shows "three_unchanged (map current_count ps) (length ps - 1)"
proof (cases ps rule: rev_cases)
  case Nil
  with assms show ?thesis by simp
next
  case (snoc qs p)
  show ?thesis
  proof (cases "polling_loop (start self) (map Poll qs)")
    case (Polling st)
    from assms have "\<exists>self1. polling_loop (start self) (map Poll qs @ Poll p # [])
        = Done Stalled self1 []"
      by (simp add: snoc)
    with stall_iff_three_unchanged [OF Polling, of p "[]"] show ?thesis
      by (simp add: snoc)
  next
    case (Done why self2 rest)
    with assms show ?thesis
      by (simp add: snoc polling_loop_append)
  qed
qed

text \<open>While the loop is polling over counts that never fall, the measure
  \<open>3 * last + consecutive\<close> grows with every tick and stays below \<open>3 * MAX + 3\<close>.\<close>

lemma still_polling_bound:
  assumes "polling_loop st (map Poll ps) = Polling st1"
    and "sorted (last_product_count st # map current_count ps)"
    and "last_product_count st \<le> MAX_EXPECTED_PRODUCTS"
    and "consecutive_same_count st \<le> 2"
  shows "3 * last_product_count st + consecutive_same_count st + length ps
           \<le> 3 * MAX_EXPECTED_PRODUCTS + 2"
  using assms
proof (induction ps arbitrary: st)
  case Nil
  then show ?case by simp
next
  case (Cons p ps)
  from Cons.prems(1) obtain st0 where body: "loop_body st (Poll p) = Continue st0"
      and run: "polling_loop st0 (map Poll ps) = Polling st1"
    by (auto split: step.splits)
  from body have nostall:
      "\<not> (current_count p = last_product_count st \<and> 2 \<le> consecutive_same_count st)"
    and small: "current_count p \<le> MAX_EXPECTED_PRODUCTS"
    and last0: "last_product_count st0 = current_count p"
    and cnt0: "consecutive_same_count st0 =
                (if current_count p = last_product_count st
                 then consecutive_same_count st + 1 else 0)"
    by (auto simp: loop_body_Continue)
  from Cons.prems(2) have ge: "last_product_count st \<le> current_count p"
    and sorted0: "sorted (last_product_count st0 # map current_count ps)"
    by (simp_all add: last0)
  have "consecutive_same_count st0 \<le> 2"
    using nostall Cons.prems(4) by (auto simp: cnt0)
  from Cons.IH [OF run sorted0 _ this] small last0
  have IH: "3 * current_count p + consecutive_same_count st0 + length ps
           \<le> 3 * MAX_EXPECTED_PRODUCTS + 2"
    by simp
  show ?case
  proof (cases "current_count p = last_product_count st")
    case True
    with IH show ?thesis by (simp add: cnt0)
  next
    case False
    with ge have "last_product_count st < current_count p" by simp
    with IH Cons.prems(4) show ?thesis by (simp add: cnt0)
  qed
qed

text \<open>
  Claim C4. Let the page answer every poll, with counts that never fall. Then the loop
  leaves within \<open>3 * 50000 + 3\<close> polls, the function returns \<open>True\<close>, and the exit is
  the stall, after three polls in a row that each observed the count of the observation
  before, or the ceiling, at a poll that counts more than 50000.
\<close>

theorem loop_terminates_on_growing_counts:
  assumes "\<forall>i. current_count (env i) \<le> current_count (env (Suc i))"
  shows "\<exists>n r. n \<le> 3 * MAX_EXPECTED_PRODUCTS + 3
           \<and> extract_product_data_in_batches self (map (\<lambda>i. Poll (env i)) [0..<n]) final_ok
               = Some r
           \<and> returned r \<and> unread r = []
           \<and> (exit_by r = Stalled \<or> exit_by r = LimitExceeded)
           \<and> (exit_by r = Stalled \<longrightarrow>
                 three_unchanged (map (\<lambda>i. current_count (env i)) [0..<n]) (n - 1))
           \<and> (exit_by r = LimitExceeded \<longrightarrow>
                 0 < n \<and> MAX_EXPECTED_PRODUCTS < current_count (env (n - 1)))"
proof -
  let ?N = "3 * MAX_EXPECTED_PRODUCTS + 3"
  let ?ps = "map env [0..<?N]"
  have mono: "current_count (env i) \<le> current_count (env j)" if "i \<le> j" for i j
    using that assms by (induction j) (auto simp: le_Suc_eq intro: order_trans)
  have "sorted_wrt (\<lambda>i j. current_count (env i) \<le> current_count (env j)) [0..<?N]"
    by (simp add: sorted_wrt_iff_nth_less mono)
  then have "sorted (map current_count ?ps)"
    by (simp add: sorted_map comp_def)
  then have sorted: "sorted (last_product_count (start self) # map current_count ?ps)"
    by (simp add: start_def)
  have "\<exists>why self1 rest. polling_loop (start self) (map Poll ?ps) = Done why self1 rest"
  proof (cases "polling_loop (start self) (map Poll ?ps)")
    case (Polling st1)
    from still_polling_bound [OF this sorted] show ?thesis
      by (simp add: start_def)
  next
    case (Done why self1 rest)
    then show ?thesis by blast
  qed
  then obtain why self1 rest where
      fin: "polling_loop (start self) (map Poll ?ps) = Done why self1 rest"
    by blast
  from polling_loop_Done_split [OF fin] obtain read where
      split: "map Poll ?ps = read @ rest" and ne: "read \<noteq> []"
      and run: "polling_loop (start self) read = Done why self1 []"
    by blast
  define n where "n = length read"
  from split have "length read + length rest = ?N"
    by (metis length_append length_map length_upt diff_zero)
  then have n_le: "n \<le> ?N" by (simp add: n_def)
  from split have "read = take n (map Poll ?ps)"
    by (simp add: n_def)
  then have read: "read = map (\<lambda>i. Poll (env i)) [0..<n]"
    using n_le by (simp add: take_map take_upt comp_def)
  have read': "read = map Poll (map env [0..<n])"
    by (simp add: read comp_def)
  from run have ok: "why \<noteq> Raised"
    unfolding read' by (rule polls_never_raise)
  from ne have n_pos: "0 < n" by (simp add: n_def)
  have last_read: "last (map env [0..<n]) = env (n - 1)"
    using n_pos by (simp add: last_map)
  from run have run': "polling_loop (start self) (map Poll (map env [0..<n])) = Done why self1 []"
    by (simp only: read')
  have limit: "MAX_EXPECTED_PRODUCTS < current_count (env (n - 1))" if "why = LimitExceeded"
  proof -
    from run' that have "polling_loop (start self) (map Poll (map env [0..<n]))
        = Done LimitExceeded self1 []"
      by simp
    from limit_exit_last_poll [OF this] show ?thesis
      by (simp only: last_read)
  qed
  have stall: "three_unchanged (map (\<lambda>i. current_count (env i)) [0..<n]) (n - 1)"
    if "why = Stalled"
  proof -
    from run' that have "polling_loop (start self) (map Poll (map env [0..<n]))
        = Done Stalled self1 []"
      by simp
    from stall_exit_three_unchanged [OF this] show ?thesis
      by (simp add: comp_def)
  qed
  define r where "r = \<lparr>returned = True, exit_by = why, final_self = self1,
      final_file = create_final_output self1 final_ok, unread = ([] :: 'a tick list)\<rparr>"
  have "extract_product_data_in_batches self (map (\<lambda>i. Poll (env i)) [0..<n]) final_ok = Some r"
    using run ok by (simp add: extract_product_data_in_batches_def read [symmetric] r_def)
  moreover have "returned r" "unread r = []" "exit_by r = why"
    by (simp_all add: r_def)
  moreover have "why = Stalled \<or> why = LimitExceeded"
    using ok by (cases why) simp_all
  ultimately show ?thesis
    using n_le n_pos limit stall by (intro exI [of _ n] exI [of _ r]) auto
qed

theorem loop_terminates_on_growing_counts_witness:
  "(\<forall>i. current_count (growing_page i) \<le> current_count (growing_page (Suc i)))
   \<and> (\<exists>n r. n \<le> 3 * MAX_EXPECTED_PRODUCTS + 3
         \<and> extract_product_data_in_batches (init ''u'' 2)
              (map (\<lambda>i. Poll (growing_page i)) [0..<n]) True = Some r
         \<and> returned r \<and> unread r = []
         \<and> (exit_by r = Stalled \<or> exit_by r = LimitExceeded))"
proof -
  have h: "\<forall>i. current_count (growing_page i) \<le> current_count (growing_page (Suc i))"
    by (auto simp: growing_page_def counting_def min_def)
  from loop_terminates_on_growing_counts [OF h, of "init ''u'' 2" True]
  have "\<exists>n r. n \<le> 3 * MAX_EXPECTED_PRODUCTS + 3
         \<and> extract_product_data_in_batches (init ''u'' 2)
              (map (\<lambda>i. Poll (growing_page i)) [0..<n]) True = Some r
         \<and> returned r \<and> unread r = []
         \<and> (exit_by r = Stalled \<or> exit_by r = LimitExceeded)"
    by blast
  with h show ?thesis by (rule conjI)
qed

lemma accumulated_below_ceiling:
  assumes "polling_loop st0 ticks = Polling st"
    and "length (all_products (this st0)) \<le> MAX_EXPECTED_PRODUCTS"
    and "\<forall>t\<in>set ticks. shows_what_it_counts t"
  shows "length (all_products (this st)) \<le> MAX_EXPECTED_PRODUCTS"
  using assms
proof (induction ticks arbitrary: st0)
  case Nil
  then show ?case by simp
next
  case (Cons t ts)
  from Cons.prems(1) obtain st1 where body: "loop_body st0 t = Continue st1"
      and run: "polling_loop st1 ts = Polling st"
    by (auto split: step.splits)
  from body obtain q where t: "t = Poll q"
    by (cases t) (auto simp: loop_body_def)
  from body have small: "current_count q \<le> MAX_EXPECTED_PRODUCTS"
    and this1: "this st1 = this st0 \<or> this st1 = extract_and_save_current_batch (this st0) q False"
    by (auto simp: t loop_body_Continue)
  from Cons.prems(3) have shown: "shows_what_it_counts (Poll q)"
    by (simp add: t)
  have "length (all_products (extract_and_save_current_batch (this st0) q False))
      \<le> MAX_EXPECTED_PRODUCTS"
    using Cons.prems(2) small shown
    by (auto simp: all_products_extract_and_save shows_what_it_counts_def
             split: sum.splits py_value.splits evaluate_result.splits if_splits)
  with this1 Cons.prems(2) have "length (all_products (this st1)) \<le> MAX_EXPECTED_PRODUCTS"
    by auto
  from Cons.IH [OF run this] Cons.prems(3) show ?case by simp
qed

text \<open>
  Claim C5. Let a run, from any object and over any ticks, reach a poll \<open>p\<close> that counts
  more than 50000. Then the loop leaves at \<open>p\<close>, as stalled when \<open>p\<close> is the third
  unchanged poll and by the ceiling otherwise, and the function returns \<open>True\<close> with
  every later tick unread. The object it leaves is the forced flush of \<open>p\<close> applied to
  \<open>self0\<close>, the loop's object after the threshold flush of that iteration, if one was
  due: when the page shows a record list, the records beyond the accumulated ones are
  appended, the batch number grows by one, and on a disk that can be written one batch
  file with exactly those records is added. When \<open>p\<close> shows as many records as it
  counts, and the accumulated collection is no longer than that (as it is when the run
  began with at most 50000 records and every earlier tick showed as many records as it
  counted), the accumulated collection has as many records as \<open>p\<close> counts, and that
  number is the \<open>total_products\<close> of the final file.
\<close>

theorem ceiling_exceeded_ends_run:
  assumes "polling_loop (start self) before = Polling st"
    and "MAX_EXPECTED_PRODUCTS < current_count p"
  shows "\<exists>why self0.
           (why = Stalled \<or> why = LimitExceeded)
         \<and> self0 =
             (if current_count p = last_product_count st
                 \<and> max_consecutive_same \<le> consecutive_same_count st + 1
              then this st
              else if batch_size (this st)
                        \<le> int (current_count p) - int (length (all_products (this st)))
                   then extract_and_save_current_batch (this st) p False
                   else this st)
         \<and> polling_loop (start self) (before @ Poll p # rest)
             = Done why (extract_and_save_current_batch self0 p True) rest
         \<and> extract_product_data_in_batches self (before @ Poll p # rest) final_ok =
             Some \<lparr>returned = True, exit_by = why,
                    final_self = extract_and_save_current_batch self0 p True,
                    final_file =
                      create_final_output (extract_and_save_current_batch self0 p True) final_ok,
                    unread = rest\<rparr>
         \<and> (\<forall>s. page_result p = Products s \<longrightarrow>
               extract_and_save_current_batch self0 p True =
                 self0\<lparr>all_products := all_products self0 @ drop (length (all_products self0)) s,
                       written_batches := written_batches self0 @
                         (if disk_ok p
                          then [\<lparr>file_batch_number = batch_number self0,
                                 products_in_batch = length (drop (length (all_products self0)) s),
                                 total_products_so_far =
                                   length (all_products self0
                                           @ drop (length (all_products self0)) s),
                                 file_base_url = base_url self0,
                                 products = drop (length (all_products self0)) s\<rparr>]
                          else []),
                       batch_number := batch_number self0 + 1\<rparr>)
         \<and> (\<forall>s. page_result p = Products s \<and> length s = current_count p
                 \<and> (length (all_products (this st)) \<le> current_count p
                      \<or> length (all_products self) \<le> MAX_EXPECTED_PRODUCTS
                          \<and> (\<forall>t\<in>set before. shows_what_it_counts t)) \<longrightarrow>
               length (all_products (extract_and_save_current_batch self0 p True))
                 = current_count p
               \<and> create_final_output (extract_and_save_current_batch self0 p True) True =
                   Some \<lparr>total_products = current_count p,
                          total_batches = batch_number self0,
                          out_batch_size = batch_size self0,
                          out_base_url = base_url self0,
                          out_products =
                            all_products (extract_and_save_current_batch self0 p True)\<rparr>)"
proof -
  define stall where "stall \<longleftrightarrow> current_count p = last_product_count st
                 \<and> max_consecutive_same \<le> consecutive_same_count st + 1"
  define self0 where "self0 =
             (if stall then this st
              else if batch_size (this st)
                        \<le> int (current_count p) - int (length (all_products (this st)))
                   then extract_and_save_current_batch (this st) p False
                   else this st)"
  define why where "why = (if stall then Stalled else LimitExceeded)"
  let ?self1 = "extract_and_save_current_batch self0 p True"
  have body: "loop_body st (Poll p) = Break why ?self1"
    using assms(2) by (simp add: loop_body_def Let_def why_def self0_def stall_def)
  have loop: "polling_loop (start self) (before @ Poll p # rest) = Done why ?self1 rest"
    by (simp add: polling_loop_append assms(1) body)
  have why: "why = Stalled \<or> why = LimitExceeded"
    by (simp add: why_def)
  then have run: "extract_product_data_in_batches self (before @ Poll p # rest) final_ok =
             Some \<lparr>returned = True, exit_by = why, final_self = ?self1,
                    final_file = create_final_output ?self1 final_ok, unread = rest\<rparr>"
    by (auto simp: extract_product_data_in_batches_def loop)
  have total: "length (all_products ?self1) = current_count p
               \<and> create_final_output ?self1 True =
                   Some \<lparr>total_products = current_count p,
                          total_batches = batch_number self0,
                          out_batch_size = batch_size self0,
                          out_base_url = base_url self0,
                          out_products = all_products ?self1\<rparr>"
    if page: "page_result p = Products s" and len: "length s = current_count p"
      and le: "length (all_products (this st)) \<le> current_count p
                      \<or> length (all_products self) \<le> MAX_EXPECTED_PRODUCTS
                          \<and> (\<forall>t\<in>set before. shows_what_it_counts t)" for s
  proof -
    have "length (all_products (this st)) \<le> current_count p"
    proof (cases "length (all_products (this st)) \<le> current_count p")
      case True
      then show ?thesis .
    next
      case False
      with le have "length (all_products (this (start self))) \<le> MAX_EXPECTED_PRODUCTS"
          "\<forall>t\<in>set before. shows_what_it_counts t"
        by (simp_all add: start_def)
      from accumulated_below_ceiling [OF assms(1) this] assms(2) show ?thesis
        by simp
    qed
    then have "length (all_products self0) \<le> current_count p"
      by (simp add: self0_def all_products_extract_and_save page len)
    with len have n: "length (all_products ?self1) = current_count p"
      by (simp add: all_products_extract_and_save page)
    have "batch_number ?self1 = batch_number self0 + 1" "batch_size ?self1 = batch_size self0"
        "base_url ?self1 = base_url self0"
      by (simp_all add: forced_flush_effect [OF page])
    with n show ?thesis
      by (simp add: create_final_output_def)
  qed
  from why loop run forced_flush_effect [of p _ self0] total
  show ?thesis
    unfolding self0_def [symmetric] stall_def [symmetric]
    by (intro exI [of _ why] exI [of _ self0]) (simp add: self0_def stall_def)
qed

theorem ceiling_exceeded_ends_run_witness:
  "polling_loop (start (init ''u'' 250)) [] = Polling (start (init ''u'' 250 :: unit automation))
   \<and> MAX_EXPECTED_PRODUCTS < current_count crowded_page
   \<and> page_result crowded_page = Products (replicate 50001 ())
   \<and> length (replicate 50001 ()) = current_count crowded_page
   \<and> length (all_products (this (start (init ''u'' 250 :: unit automation))))
        \<le> current_count crowded_page
   \<and> extract_product_data_in_batches (init ''u'' 250)
         ([] @ Poll crowded_page # [Poll crowded_page]) True = Some crowded_run"
proof -
  let ?st = "start (init ''u'' 250 :: unit automation)"
  have h1: "polling_loop (start (init ''u'' 250)) [] = Polling ?st"
    by simp
  have h2: "MAX_EXPECTED_PRODUCTS < current_count crowded_page"
    by (simp add: crowded_page_def MAX_EXPECTED_PRODUCTS_def)
  have h3: "page_result crowded_page = Products (replicate 50001 ())"
    by (simp add: crowded_page_def)
  have h4: "length (replicate 50001 ()) = current_count crowded_page"
    by (simp add: crowded_page_def)
  have h5: "length (all_products (this ?st)) \<le> current_count crowded_page"
    by (simp add: start_def init_def)
  from ceiling_exceeded_ends_run [OF h1 h2, of "[Poll crowded_page]" True]
  obtain why self0 where
      self0: "self0 =
             (if current_count crowded_page = last_product_count ?st
                 \<and> max_consecutive_same \<le> consecutive_same_count ?st + 1
              then this ?st
              else if batch_size (this ?st)
                        \<le> int (current_count crowded_page) - int (length (all_products (this ?st)))
                   then extract_and_save_current_batch (this ?st) crowded_page False
                   else this ?st)"
      and run: "extract_product_data_in_batches (init ''u'' 250)
           ([] @ Poll crowded_page # [Poll crowded_page]) True =
             Some \<lparr>returned = True, exit_by = why,
                    final_self = extract_and_save_current_batch self0 crowded_page True,
                    final_file =
                      create_final_output (extract_and_save_current_batch self0 crowded_page True)
                        True,
                    unread = [Poll crowded_page]\<rparr>"
      and loop: "polling_loop (start (init ''u'' 250)) ([] @ Poll crowded_page # [Poll crowded_page])
             = Done why (extract_and_save_current_batch self0 crowded_page True)
                 [Poll crowded_page]"
    by blast
  have "polling_loop (start (init ''u'' 250)) ([] @ Poll crowded_page # [Poll crowded_page])
      = Done LimitExceeded (final_self crowded_run) [Poll crowded_page]"
    by (simp add: crowded_run_def crowded_page_def run_defs)
  with loop have "why = LimitExceeded"
      "extract_and_save_current_batch self0 crowded_page True = final_self crowded_run"
    by simp_all
  with run have "extract_product_data_in_batches (init ''u'' 250)
         ([] @ Poll crowded_page # [Poll crowded_page]) True = Some crowded_run"
    by (simp add: crowded_run_def create_final_output_def)
  with h1 h2 h3 h4 h5 show ?thesis
    by (intro conjI)
qed

section \<open>Properties of the extraction script\<close>

lemmas js_defs = parse_container_def with_details_def set_price_value_def set_detail_def
  set_id_and_category_def set_name_def assign_def detail_key_def info_parts_def
  split_str_def bullet_def trim_def trim_start_def trim_end_def white_space_def
  toLowerCase_def to_lower_char_def is_ascii_def includes_str_def replace_s_runs_def
  keep_numeric_def id_text_def int_digits_def int_negative_def int_read_def
  digits_value_def digit_value_def is_digit_def stored_key_def stored_value_def
  has_white_space_def caseless_table_def sublist_code Let_def

subsection \<open>Doubles of small integers\<close>

lemma bits_bounds: "0 < n \<Longrightarrow> 2 ^ (bits n - 1) \<le> n \<and> n < 2 ^ bits n"
proof (induction n rule: bits.induct)
  case (1 n)
  show ?case
  proof (cases "n div 2 = 0")
    case True
    with "1.prems" have "n = 1" by (simp add: div_eq_0_iff)
    moreover have "bits (Suc 0) = Suc 0"
      by (simp add: bits.simps [of "Suc 0"] bits.simps [of 0])
    ultimately show ?thesis by simp
  next
    case False
    then have pos: "0 < n div 2" by simp
    from "1.IH" [OF _ pos] "1.prems"
    have IH: "2 ^ (bits (n div 2) - 1) \<le> n div 2" "n div 2 < 2 ^ bits (n div 2)"
      by simp_all
    have b: "bits n = Suc (bits (n div 2))"
      using "1.prems" by (simp add: bits.simps [of n])
    have bpos: "0 < bits (n div 2)"
      using pos by (simp add: bits.simps [of "n div 2"])
    then obtain k where k: "bits (n div 2) = Suc k"
      by (cases "bits (n div 2)") simp_all
    from IH have "2 * 2 ^ k \<le> 2 * (n div 2)" "2 * (n div 2) + 1 < 2 * 2 ^ Suc k"
      by (simp_all add: k)
    then have "2 ^ Suc k \<le> n" "n < 2 ^ Suc (Suc k)"
      by simp_all
    then show ?thesis by (simp add: b k)
  qed
qed

lemma bits_le: "n < 2 ^ k \<Longrightarrow> bits n \<le> k"
proof (cases "n = 0")
  case True
  then show ?thesis by (simp add: bits.simps [of 0])
next
  case False
  assume "n < 2 ^ k"
  with bits_bounds [of n] False have "2 ^ (bits n - 1) \<le> n" "n < 2 ^ k"
    by simp_all
  then have "(2::nat) ^ (bits n - 1) < 2 ^ k"
    by (rule le_less_trans)
  then have "bits n - 1 < k"
    by (simp only: power_strict_increasing_iff [of 2, simplified] one_less_numeral_iff
          semiring_norm power_strict_increasing_iff)
  then show ?thesis by simp
qed

lemma bits_pos: "0 < n \<Longrightarrow> 0 < bits n"
  by (simp add: bits.simps [of n])

lemma round_half_even_whole: "round_half_even a (Suc 0) = a"
  by (simp add: round_half_even_def)

lemma nearest_double_small:
  assumes "0 < n" and "n < 2 ^ 53"
  shows "nearest_double n (Suc 0) = of_nat n"
proof -
  from assms have b: "0 < bits n" "bits n \<le> 53"
    by (simp_all add: bits_pos bits_le)
  have fl: "floor_log2 n (Suc 0) = int (bits n) - 1"
    using assms(1) by (simp add: floor_log2_def)
  define k where "k = 53 - bits n"
  have e: "max (floor_log2 n (Suc 0) - 52) (- 1074) = - int k"
    using b by (simp add: fl k_def)
  show ?thesis
  proof (cases "k = 0")
    case True
    then show ?thesis
      by (simp add: nearest_double_def e Let_def round_half_even_whole pow2_def)
  next
    case False
    then show ?thesis
      by (simp add: nearest_double_def e Let_def round_half_even_whole pow2_def)
  qed
qed

lemma to_double_small:
  assumes "n < 2 ^ 53"
  shows "to_double negative n (Suc 0) =
           (if n = 0 \<and> negative then NegZero
            else Finite (if negative then - of_nat n else of_nat n))"
proof (cases "n = 0")
  case True
  then show ?thesis by (simp add: to_double_def)
next
  case False
  then have pos: "0 < n" by simp
  have "(of_nat n :: rat) < of_nat (2 ^ 53)"
    using assms by (simp only: of_nat_less_iff)
  also have "(of_nat (2 ^ 53) :: rat) \<le> 2 ^ 1024"
    by simp
  finally have "\<not> (2 ^ 1024 \<le> (of_nat n :: rat))"
    by simp
  with pos show ?thesis
    by (simp add: to_double_def nearest_double_small [OF pos assms] Let_def)
qed

lemma digit_value_le: "digit_value c \<le> 9"
  by (simp add: digit_value_def)

lemma foldl_digits_less:
  "foldl (\<lambda>n c. 10 * n + digit_value c) m ds < (m + 1) * 10 ^ length ds"
proof (induction ds arbitrary: m)
  case Nil
  then show ?case by simp
next
  case (Cons c ds)
  have "foldl (\<lambda>n c. 10 * n + digit_value c) (10 * m + digit_value c) ds
      < (10 * m + digit_value c + 1) * 10 ^ length ds"
    by (rule Cons.IH)
  also have "\<dots> \<le> (10 * m + 10) * 10 ^ length ds"
    using digit_value_le [of c] by (intro mult_right_mono) simp_all
  finally show ?case by (simp add: algebra_simps)
qed

lemma digits_value_less: "digits_value ds < 10 ^ length ds"
  using foldl_digits_less [of 0 ds] by (simp add: digits_value_def)

lemma digits_value_small: "length ds \<le> 15 \<Longrightarrow> digits_value ds < 2 ^ 53"
proof -
  assume "length ds \<le> 15"
  then have "(10::nat) ^ length ds \<le> 10 ^ 15"
    by (intro power_increasing) simp_all
  with digits_value_less [of ds] have "digits_value ds < 10 ^ 15"
    by simp
  also have "(10::nat) ^ 15 < 2 ^ 53"
    by simp
  finally show ?thesis .
qed

lemma parseInt_none: "int_digits s = [] \<Longrightarrow> parseInt s = None"
  by (simp add: parseInt_def)

lemma parseInt_small:
  assumes "int_digits s \<noteq> []" and "length (int_digits s) \<le> 15"
    and "\<not> (int_negative s \<and> digits_value (int_digits s) = 0)"
  shows "parseInt s = Some (Finite (of_int (int_read s)))"
  using assms by (auto simp: parseInt_def int_read_def to_double_small [OF digits_value_small])

lemmas bits_eval = bits.simps [of "numeral n" for n] bits.simps [of 0] bits.simps [of 1]
  bits.simps [of "Suc 0"]

lemma double_1234_56:
  "to_double False 123456 100 = Finite (2714826150374277 / 2199023255552)"
  by (simp add: to_double_def nearest_double_def floor_log2_def round_half_even_def pow2_def
        Let_def bits_eval)

subsection \<open>Where a detail block is stored\<close>

lemma set_detail_stored:
  "set_detail L product sec =
     (case stored_key L sec of
        None \<Rightarrow> product
      | Some k \<Rightarrow> product(k \<mapsto> stored_value sec))"
  by (simp add: set_detail_def stored_key_def stored_value_def assign_def
           split: option.split)

lemma foldl_set_detail_other:
  "\<forall>sec\<in>set secs. stored_key L sec \<noteq> Some k \<Longrightarrow>
     foldl (set_detail L) product secs k = product k"
  by (induction secs arbitrary: product) (auto simp: set_detail_stored split: option.split)

lemma foldl_set_detail_last:
  assumes "stored_key L sec = Some k" and "\<forall>s\<in>set after. stored_key L s \<noteq> Some k"
  shows "foldl (set_detail L) product (before @ sec # after) k = Some (stored_value sec)"
  using assms by (simp add: foldl_set_detail_other set_detail_stored)

lemma replace_s_runs_go_plain:
  "CHR ''s'' \<notin> set s \<Longrightarrow> replace_s_runs_go in_run s = s"
  by (induction s arbitrary: in_run) auto

lemma detail_key_plain:
  "CHR ''s'' \<notin> set (toLowerCase L label) \<Longrightarrow> detail_key L label = toLowerCase L label"
  by (simp add: detail_key_def replace_s_runs_def replace_s_runs_go_plain)

lemma set_price_value_other:
  "k \<noteq> ''price_value'' \<Longrightarrow> set_price_value product k = product k"
  by (simp add: set_price_value_def split: option.split js_value.split)

lemma parse_container_other:
  "k \<noteq> ''price_value'' \<Longrightarrow> k \<noteq> ''extracted_at'' \<Longrightarrow>
     parse_container L c k = with_details L c k"
  by (simp add: parse_container_def set_price_value_other)

lemma parse_container_price_value:
  "parse_container L c ''price_value'' = set_price_value (with_details L c) ''price_value''"
  by (simp add: parse_container_def)

lemma before_details_id:
  assumes "info_el c = Some t" and "info_parts t = first # others"
    and "includes_str (toLowerCase L first) ''id:''"
  shows "set_id_and_category L c (set_name c Map.empty) ''id'' =
           Some (case parseInt (id_text first) of
                   None \<Rightarrow> JNull
                 | Some n \<Rightarrow> JNumber n)"
  using assms by (simp add: set_id_and_category_def Let_def split: list.split)

lemma before_details_price_value:
  "set_id_and_category L c (set_name c Map.empty) ''price_value'' = None"
  by (simp add: set_id_and_category_def set_name_def Let_def split: option.split list.split)

lemma with_details_price_value_absent:
  assumes "\<forall>sec\<in>set (detail_sections c). stored_key L sec \<noteq> Some ''price_value''"
  shows "with_details L c ''price_value'' = None"
  using assms by (simp add: with_details_def foldl_set_detail_other before_details_price_value)

text \<open>The sample pages in ASCII give the same products whatever the Unicode tables are.\<close>

lemma samples_need_no_table:
  "parse_container L chair = parse_container caseless_table chair"
  "parse_container L unpriced = parse_container caseless_table unpriced"
  "parse_container L bare = parse_container caseless_table bare"
  by (simp_all add: chair_def unpriced_def bare_def parse_container_def with_details_def
        set_detail_def set_id_and_category_def detail_key_def toLowerCase_def is_ascii_def
        info_parts_def split_str_def bullet_def trim_def trim_start_def trim_end_def
        white_space_def caseless_table_def Let_def)

subsection \<open>The id and the labelled details of a record\<close>

text \<open>
  Claim C7, as the code has it by design. Let the first part of the info line hold
  \<open>id:\<close>, and let no detail block be stored under the key \<open>id\<close>. Then the record has
  an \<open>id\<close>: what \<open>parseInt\<close> makes of the id text, and \<open>null\<close>, not an absent field,
  when \<open>parseInt\<close> reads no digit there. When it reads at most 15 digits (and not
  \<open>-0\<close>) the \<open>id\<close> is the integer they denote; beyond that it is the nearest double.
  A detail block whose trimmed label is not empty and holds, lower-cased, neither the
  letter \<open>s\<close> nor white space is stored under its lower-cased label with its value
  (\<open>null\<close> without a value span), when it is the last block with that key and the key
  is none of \<open>__proto__\<close>, \<open>price_value\<close> and \<open>extracted_at\<close>. Labels with an \<open>s\<close> or
  with white space are left out of the statement: there the key depends on the pattern
  \<open>/s+/g\<close> of the source.
\<close>

theorem id_and_detail_fields:
  "(info_el c = Some t \<and> info_parts t = first # others
      \<and> includes_str (toLowerCase L first) ''id:''
      \<and> (\<forall>sec\<in>set (detail_sections c). stored_key L sec \<noteq> Some ''id'') \<longrightarrow>
    parse_container L c ''id'' =
      Some (case parseInt (id_text first) of
              None \<Rightarrow> JNull
            | Some n \<Rightarrow> JNumber n)
    \<and> (int_digits (id_text first) = [] \<longrightarrow> parse_container L c ''id'' = Some JNull)
    \<and> (int_digits (id_text first) \<noteq> [] \<and> length (int_digits (id_text first)) \<le> 15
         \<and> \<not> (int_negative (id_text first) \<and> digits_value (int_digits (id_text first)) = 0)
        \<longrightarrow> parse_container L c ''id''
              = Some (JNumber (Finite (of_int (int_read (id_text first)))))))
   \<and> (detail_sections c = before @ sec # after \<and> label_span sec = Some label
        \<and> trim label \<noteq> []
        \<and> CHR ''s'' \<notin> set (toLowerCase L (trim label))
        \<and> \<not> has_white_space (toLowerCase L (trim label))
        \<and> toLowerCase L (trim label) \<notin> {''__proto__'', ''price_value'', ''extracted_at''}
        \<and> (\<forall>s\<in>set after. stored_key L s \<noteq> Some (toLowerCase L (trim label))) \<longrightarrow>
      parse_container L c (toLowerCase L (trim label)) = Some (stored_value sec))"
proof (intro conjI impI)
  assume h: "info_el c = Some t \<and> info_parts t = first # others
      \<and> includes_str (toLowerCase L first) ''id:''
      \<and> (\<forall>sec\<in>set (detail_sections c). stored_key L sec \<noteq> Some ''id'')"
  then have "with_details L c ''id'' = set_id_and_category L c (set_name c Map.empty) ''id''"
    by (simp add: with_details_def foldl_set_detail_other)
  with h show id: "parse_container L c ''id'' =
      Some (case parseInt (id_text first) of
              None \<Rightarrow> JNull
            | Some n \<Rightarrow> JNumber n)"
    by (simp add: parse_container_other before_details_id)
  {
    assume "int_digits (id_text first) = []"
    then show "parse_container L c ''id'' = Some JNull"
      by (simp add: id parseInt_none)
  }
  {
    assume "int_digits (id_text first) \<noteq> [] \<and> length (int_digits (id_text first)) \<le> 15
         \<and> \<not> (int_negative (id_text first) \<and> digits_value (int_digits (id_text first)) = 0)"
    then have "parseInt (id_text first) = Some (Finite (of_int (int_read (id_text first))))"
      by (intro parseInt_small) simp_all
    then show "parse_container L c ''id''
              = Some (JNumber (Finite (of_int (int_read (id_text first)))))"
      by (simp add: id)
  }
next
  let ?k = "toLowerCase L (trim label)"
  assume h: "detail_sections c = before @ sec # after \<and> label_span sec = Some label
        \<and> trim label \<noteq> []
        \<and> CHR ''s'' \<notin> set ?k
        \<and> \<not> has_white_space ?k
        \<and> ?k \<notin> {''__proto__'', ''price_value'', ''extracted_at''}
        \<and> (\<forall>s\<in>set after. stored_key L s \<noteq> Some ?k)"
  then have key: "detail_key L (trim label) = ?k"
    by (simp add: detail_key_plain)
  with h have k1: "stored_key L sec = Some ?k"
    by (simp add: stored_key_def)
  from h have k2: "\<forall>s\<in>set after. stored_key L s \<noteq> Some ?k" and
      secs: "detail_sections c = before @ sec # after"
    by blast+
  from k1 k2 have "foldl (set_detail L) (set_id_and_category L c (set_name c Map.empty))
      (before @ sec # after) ?k = Some (stored_value sec)"
    by (rule foldl_set_detail_last)
  then have "with_details L c ?k = Some (stored_value sec)"
    by (simp only: with_details_def secs)
  with h show "parse_container L c ?k = Some (stored_value sec)"
    by (simp add: parse_container_other)
qed

theorem id_and_detail_fields_witness:
  "info_el chair = Some ''ID: n/a'' \<and> info_parts ''ID: n/a'' = ''ID: n/a'' # []
   \<and> includes_str (toLowerCase caseless_table ''ID: n/a'') ''id:''
   \<and> map (stored_key caseless_table) (detail_sections chair)
        = [Some ''de_cription'', Some ''price'']
   \<and> id_text ''ID: n/a'' = ''n/a'' \<and> int_digits ''n/a'' = []
   \<and> parse_container caseless_table chair ''id'' = Some JNull
   \<and> info_el spaced = Some (''ID:'' @ [CHR 0xC2, CHR 0xA0] @ ''12'')
   \<and> info_parts (''ID:'' @ [CHR 0xC2, CHR 0xA0] @ ''12'')
        = (''ID:'' @ [CHR 0xC2, CHR 0xA0] @ ''12'') # []
   \<and> includes_str (toLowerCase caseless_table (''ID:'' @ [CHR 0xC2, CHR 0xA0] @ ''12'')) ''id:''
   \<and> map (stored_key caseless_table) (detail_sections spaced) = [Some ''price'']
   \<and> id_text (''ID:'' @ [CHR 0xC2, CHR 0xA0] @ ''12'') = ''12''
   \<and> int_digits ''12'' = ''12'' \<and> int_read ''12'' = 12
   \<and> parse_container caseless_table spaced ''id'' = Some (JNumber (Finite 12))
   \<and> detail_sections chair =
        [\<lparr>label_span = Some ''Description'', value_span = Some ''A chair''\<rparr>]
        @ \<lparr>label_span = Some ''Price'', value_span = Some ''$1,234.56''\<rparr> # []
   \<and> toLowerCase caseless_table (trim ''Price'') = ''price''
   \<and> parse_container caseless_table chair ''price'' = Some (JString ''$1,234.56'')"
proof -
  let ?L = caseless_table
  let ?price = "\<lparr>label_span = Some ''Price'', value_span = Some ''$1,234.56''\<rparr>"
  let ?desc = "\<lparr>label_span = Some ''Description'', value_span = Some ''A chair''\<rparr>"
  let ?info = "''ID:'' @ [CHR 0xC2, CHR 0xA0] @ ''12''"
  have a1: "info_el chair = Some ''ID: n/a''"
    by (simp add: chair_def)
  have a2: "info_parts ''ID: n/a'' = ''ID: n/a'' # []"
    by (simp add: js_defs)
  have a3: "includes_str (toLowerCase ?L ''ID: n/a'') ''id:''"
    by (simp add: js_defs)
  have a4': "map (stored_key ?L) (detail_sections chair) = [Some ''de_cription'', Some ''price'']"
    by (simp add: chair_def js_defs)
  have a4: "\<forall>sec\<in>set (detail_sections chair). stored_key ?L sec \<noteq> Some ''id''"
    by (simp add: chair_def js_defs)
  have a5: "id_text ''ID: n/a'' = ''n/a''"
    by (simp add: js_defs)
  have a6: "int_digits ''n/a'' = []"
    by (simp add: js_defs)
  note chair_inst = id_and_detail_fields [of chair "''ID: n/a''" "''ID: n/a''" "[]" ?L
      "[?desc]" ?price "[]" "''Price''"]
  from chair_inst a1 a2 a3 a4
  have "int_digits (id_text ''ID: n/a'') = [] \<longrightarrow>
      parse_container ?L chair ''id'' = Some JNull"
    by blast
  with a5 a6 have c1: "parse_container ?L chair ''id'' = Some JNull"
    by simp
  have s1: "info_el spaced = Some ?info"
    by (simp add: spaced_def)
  have s2: "info_parts ?info = ?info # []"
    by (simp add: js_defs)
  have s3: "includes_str (toLowerCase ?L ?info) ''id:''"
    by (simp add: js_defs)
  have s4': "map (stored_key ?L) (detail_sections spaced) = [Some ''price'']"
    by (simp add: spaced_def js_defs)
  have s4: "\<forall>sec\<in>set (detail_sections spaced). stored_key ?L sec \<noteq> Some ''id''"
    by (simp add: spaced_def js_defs)
  have s5: "id_text ?info = ''12''"
    by (simp add: js_defs)
  have s6: "int_digits ''12'' = ''12''"
    by (simp add: js_defs)
  have s7: "int_read ''12'' = 12"
    by (simp add: js_defs)
  have s8: "\<not> (int_negative ''12'' \<and> digits_value (int_digits ''12'') = 0)"
    by (simp add: js_defs)
  note spaced_inst = id_and_detail_fields [of spaced ?info ?info "[]" ?L]
  from spaced_inst s1 s2 s3 s4
  have "int_digits (id_text ?info) \<noteq> [] \<and> length (int_digits (id_text ?info)) \<le> 15
         \<and> \<not> (int_negative (id_text ?info) \<and> digits_value (int_digits (id_text ?info)) = 0)
        \<longrightarrow> parse_container ?L spaced ''id''
              = Some (JNumber (Finite (of_int (int_read (id_text ?info)))))"
    by blast
  with s8 have c3: "parse_container ?L spaced ''id'' = Some (JNumber (Finite 12))"
    by (simp only: s5 s6 s7) simp
  have b1: "detail_sections chair = [?desc] @ ?price # []"
    by (simp add: chair_def)
  have b2: "label_span ?price = Some ''Price''"
    by simp
  have b3: "toLowerCase ?L (trim ''Price'') = ''price''"
    by (simp add: js_defs)
  have b4: "trim ''Price'' \<noteq> []"
    by (simp add: js_defs)
  have b5: "CHR ''s'' \<notin> set (toLowerCase ?L (trim ''Price''))"
    by (simp add: b3)
  have b6: "\<not> has_white_space (toLowerCase ?L (trim ''Price''))"
    by (simp add: b3) (simp add: has_white_space_def white_space_def sublist_code)
  have b7: "toLowerCase ?L (trim ''Price'') \<notin> {''__proto__'', ''price_value'', ''extracted_at''}"
    by (simp add: b3)
  have b8: "\<forall>s\<in>set []. stored_key ?L s \<noteq> Some (toLowerCase ?L (trim ''Price''))"
    by simp
  from chair_inst b1 b2 b4 b5 b6 b7 b8
  have "parse_container ?L chair (toLowerCase ?L (trim ''Price'')) = Some (stored_value ?price)"
    by blast
  then have c2: "parse_container ?L chair ''price'' = Some (JString ''$1,234.56'')"
    by (simp add: b3) (simp add: js_defs)
  from a1 a2 a3 a4' a5 a6 c1 s1 s2 s3 s4' s5 s6 s7 c3 b1 b3 c2 show ?thesis
    by (intro conjI)
qed

text \<open>
  Claim C7, as written, fails on the container \<open>chair\<close>: its id text \<open>n/a\<close> is no
  number, and the record has the field \<open>id\<close>, holding \<open>null\<close>; its block labelled
  \<open>Description\<close> is not stored under \<open>description\<close> but under \<open>de_cription\<close>.
\<close>

theorem unparsable_id_is_null_not_absent:
  "id_text ''ID: n/a'' = ''n/a''
   \<and> parseInt ''n/a'' = None
   \<and> parse_container caseless_table chair ''id'' = Some JNull
   \<and> parse_container caseless_table chair ''id'' \<noteq> None
   \<and> toLowerCase caseless_table ''Description'' = ''description''
   \<and> parse_container caseless_table chair ''description'' = None
   \<and> parse_container caseless_table chair ''de_cription'' = Some (JString ''A chair'')"
  by (simp add: chair_def js_defs parseInt_def)

subsection \<open>The derived price\<close>

text \<open>
  Claim C8, as the code has it. Let \<open>price\<close> be what the detail blocks stored under
  that key. When it is missing, \<open>null\<close> or the empty text, and no detail block is stored
  under the key \<open>price_value\<close>, the record has no \<open>price_value\<close>. When it is a text that
  is not empty and in whose digits, dots and minus signs \<open>parseFloat\<close> reads no number,
  \<open>price_value\<close> is there and holds \<open>null\<close>. When it is \<open>$1,234.56\<close>, \<open>price_value\<close>
  is the double nearest to 1234.56, which is \<open>2714826150374277 / 2 ^ 41\<close>.
\<close>

theorem price_value_field:
  "((\<forall>s. with_details L c ''price'' = Some (JString s) \<longrightarrow> s = [])
      \<and> (\<forall>sec\<in>set (detail_sections c). stored_key L sec \<noteq> Some ''price_value'') \<longrightarrow>
    parse_container L c ''price_value'' = None)
   \<and> (with_details L c ''price'' = Some (JString price) \<and> price \<noteq> []
        \<and> parseFloat (keep_numeric price) = None \<longrightarrow>
      parse_container L c ''price_value'' = Some JNull)
   \<and> (with_details L c ''price'' = Some (JString ''$1,234.56'') \<longrightarrow>
      parse_container L c ''price_value'' = Some (JNumber (to_double False 123456 100))
      \<and> parse_container L c ''price_value''
          = Some (JNumber (Finite (2714826150374277 / 2199023255552))))"
proof (intro conjI impI)
  assume h: "(\<forall>s. with_details L c ''price'' = Some (JString s) \<longrightarrow> s = [])
      \<and> (\<forall>sec\<in>set (detail_sections c). stored_key L sec \<noteq> Some ''price_value'')"
  then have "set_price_value (with_details L c) = with_details L c"
    by (auto simp: set_price_value_def split: option.split js_value.split)
  with h show "parse_container L c ''price_value'' = None"
    by (simp add: parse_container_price_value with_details_price_value_absent)
next
  assume "with_details L c ''price'' = Some (JString price) \<and> price \<noteq> []
        \<and> parseFloat (keep_numeric price) = None"
  then show "parse_container L c ''price_value'' = Some JNull"
    by (simp add: parse_container_price_value set_price_value_def)
next
  have num: "parseFloat (keep_numeric ''$1,234.56'') = Some (to_double False 123456 100)"
    by (simp add: parseFloat_def keep_numeric_def is_digit_def trim_start_def white_space_def
          digits_value_def digit_value_def Let_def)
  assume "with_details L c ''price'' = Some (JString ''$1,234.56'')"
  then show v: "parse_container L c ''price_value'' = Some (JNumber (to_double False 123456 100))"
    by (simp add: parse_container_price_value set_price_value_def num)
  show "parse_container L c ''price_value''
          = Some (JNumber (Finite (2714826150374277 / 2199023255552)))"
    by (simp only: v double_1234_56)
qed

theorem price_value_field_witness:
  "with_details caseless_table bare ''price'' = None
   \<and> detail_sections bare = []
   \<and> parse_container caseless_table bare ''price_value'' = None
   \<and> with_details caseless_table unpriced ''price'' = Some (JString ''N/A'') \<and> ''N/A'' \<noteq> []
   \<and> parseFloat (keep_numeric ''N/A'') = None
   \<and> parse_container caseless_table unpriced ''price_value'' = Some JNull
   \<and> with_details caseless_table chair ''price'' = Some (JString ''$1,234.56'')
   \<and> parse_container caseless_table chair ''price_value''
        = Some (JNumber (Finite (2714826150374277 / 2199023255552)))"
proof -
  let ?L = caseless_table
  have a1': "with_details ?L bare ''price'' = None"
    by (simp add: bare_def js_defs)
  have a2': "detail_sections bare = []"
    by (simp add: bare_def)
  from a1' have a1: "\<forall>s. with_details ?L bare ''price'' = Some (JString s) \<longrightarrow> s = []"
    by simp
  from a2' have a2: "\<forall>sec\<in>set (detail_sections bare). stored_key ?L sec \<noteq> Some ''price_value''"
    by simp
  have b1: "with_details ?L unpriced ''price'' = Some (JString ''N/A'')"
    by (simp add: unpriced_def js_defs)
  have b2: "''N/A'' \<noteq> []"
    by simp
  have b3: "parseFloat (keep_numeric ''N/A'') = None"
    by (simp add: js_defs parseFloat_def)
  have c1: "with_details ?L chair ''price'' = Some (JString ''$1,234.56'')"
    by (simp add: chair_def js_defs)
  from price_value_field [of ?L bare] a1 a2
  have r1: "parse_container ?L bare ''price_value'' = None"
    by blast
  from price_value_field [of ?L unpriced "''N/A''"] b1 b2 b3
  have r2: "parse_container ?L unpriced ''price_value'' = Some JNull"
    by blast
  from price_value_field [of ?L chair] c1
  have r3: "parse_container ?L chair ''price_value''
      = Some (JNumber (Finite (2714826150374277 / 2199023255552)))"
    by blast
  from a1' a2' r1 b1 b2 b3 r2 c1 r3 show ?thesis
    by (intro conjI)
qed

text \<open>
  Claim C8, as written, fails on the container \<open>unpriced\<close>: its price text \<open>N/A\<close>
  is no number, and the record has the field \<open>price_value\<close>, holding \<open>null\<close>.
\<close>

theorem unparsable_price_is_null_not_absent:
  "with_details caseless_table unpriced ''price'' = Some (JString ''N/A'')
   \<and> parseFloat (keep_numeric ''N/A'') = None
   \<and> parse_container caseless_table unpriced ''price_value'' = Some JNull
   \<and> parse_container caseless_table unpriced ''price_value'' \<noteq> None"
  by (simp add: unpriced_def js_defs parseFloat_def)

text \<open>The script as a whole feeds the loop: a throw inside it is the marker.\<close>

lemma in_page_script_throwing:
  "in_page_script L (Throwing err) = ErrorMarker err"
  by (simp add: in_page_script_def)

subsection \<open>Numbers beyond the exact integers\<close>

text \<open>Three values that tell doubles from exact numbers: rounding above \<open>2 ^ 53\<close>, minus
  zero, and overflow to infinity.\<close>

lemma parseInt_rounds_to_double:
  "parseInt ''9007199254740993'' = Some (Finite 9007199254740992)"
  by (simp add: parseInt_def int_digits_def int_negative_def trim_start_def white_space_def
        is_digit_def digits_value_def digit_value_def to_double_def nearest_double_def
        floor_log2_def round_half_even_def pow2_def Let_def bits_eval)

lemma parseInt_minus_zero: "parseInt ''-0'' = Some NegZero"
  by (simp add: parseInt_def int_digits_def int_negative_def trim_start_def white_space_def
        is_digit_def digits_value_def digit_value_def to_double_def)

lemma parseFloat_overflows: "parseFloat ''1e400'' = Some PosInfinity"
  by (simp add: parseFloat_def trim_start_def white_space_def
        is_digit_def digits_value_def digit_value_def to_double_def nearest_double_def
        floor_log2_def round_half_even_def pow2_def Let_def bits_eval)

end
